theory Spec2Isabelle
  imports Complex_Main "HOL-Library.Word" "HOL-Library.Log_Nat"
begin

section \<open>petit-sibench: C data and arithmetic\<close>

text \<open>
  The program is one C file, \<^verbatim>\<open>petit-sibench.c\<close>: \<^verbatim>\<open>main\<close> scans its arguments, sets the
  schema up, launches \<^verbatim>\<open>threads\<close> workers running \<^verbatim>\<open>thread_main\<close>, joins them and prints
  one line. What the program gets from outside (libpq, the clock, libc, pthreads) is a
  parameter of the model, and what it does to the outside is recorded as a list of calls.

  A C \<^verbatim>\<open>int\<close> is modelled as a HOL \<open>int\<close> that must stay within
  \<open>INT_MIN .. INT_MAX\<close>: signed overflow and division by zero are undefined behaviour
  in C, and every operation that can run into one returns a \<open>fault\<close> instead of a value.
  The two other faults are those of \<^verbatim>\<open>main\<close>: joining a thread handle that was never
  stored, and reading the counters of a worker that was not waited for. \<^verbatim>\<open>unsigned\<close> is
  a 32-bit word. The fields of \<^verbatim>\<open>struct timeval\<close> are of the wider types \<^verbatim>\<open>time_t\<close>
  and \<^verbatim>\<open>suseconds_t\<close> and are left unbounded.
\<close>

datatype fault = Signed_Overflow | Division_By_Zero | Indeterminate_Thread_Handle | Data_Race

definition INT_MAX :: int where
  "INT_MAX = 2147483647"

definition INT_MIN :: int where
  "INT_MIN = - 2147483648"

text \<open>\<^verbatim>\<open>a + b\<close> on \<^verbatim>\<open>int\<close>; \<^verbatim>\<open>++x\<close> and \<^verbatim>\<open>x++\<close> are \<open>c_add x 1\<close>.\<close>

definition c_add :: "int \<Rightarrow> int \<Rightarrow> fault + int" where
  "c_add a b = (if INT_MIN \<le> a + b \<and> a + b \<le> INT_MAX then Inr (a + b) else Inl Signed_Overflow)"

text \<open>\<^verbatim>\<open>a % b\<close> on \<^verbatim>\<open>int\<close>: the remainder of the division that truncates towards zero,
  so it has the sign of \<open>a\<close>.\<close>

definition c_rem :: "int \<Rightarrow> int \<Rightarrow> fault + int" where
  "c_rem a b =
     (if b = 0 then Inl Division_By_Zero
      else if a = INT_MIN \<and> b = - 1 then Inl Signed_Overflow
      else Inr (sgn a * (\<bar>a\<bar> mod \<bar>b\<bar>)))"

text \<open>Sequencing of steps that may fault: the first fault ends the computation.\<close>

definition and_then :: "fault + 'a \<Rightarrow> ('a \<Rightarrow> fault + 'b) \<Rightarrow> fault + 'b" where
  "and_then r f = (case r of Inl e \<Rightarrow> Inl e | Inr v \<Rightarrow> f v)"

record timeval =
  tv_sec :: int
  tv_usec :: int

text \<open>\<^verbatim>\<open>struct thread_context\<close>. The handle is \<open>None\<close> while its contents are indeterminate
  (fresh from \<^verbatim>\<open>malloc\<close>, or after a \<^verbatim>\<open>pthread_create\<close> that failed), and \<open>Some i\<close> once
  \<^verbatim>\<open>pthread_create\<close> has stored the handle of thread \<open>i\<close> there.\<close>

record thread_context =
  thread_handle :: "nat option"
  conn_info :: string
  finish_time :: timeval
  queries_per_update :: int
  rows :: int
  ssi :: bool
  thread_number :: int
  transactions :: int
  failures :: int
  cycle :: int

section \<open>The data store and the clock, as the worker sees them\<close>

datatype ConnStatusType = CONNECTION_OK | CONNECTION_BAD

datatype ExecStatusType =
  PGRES_EMPTY_QUERY | PGRES_COMMAND_OK | PGRES_TUPLES_OK | PGRES_BAD_RESPONSE
  | PGRES_NONFATAL_ERROR | PGRES_FATAL_ERROR

text \<open>The SQL texts the program sends, one constructor per format string; the argument is
  the integer printed for \<^verbatim>\<open>%d\<close>.
  \<^item> \<open>Set_Serializable\<close>: \<^verbatim>\<open>set default_transaction_isolation to serializable\<close>
  \<^item> \<open>Set_Repeatable_Read\<close>: \<^verbatim>\<open>set default_transaction_isolation to "repeatable read"\<close>
  \<^item> \<open>Update_Where k\<close>: \<^verbatim>\<open>update sibench set i = i where i = k\<close>
  \<^item> \<open>Select_All\<close>: \<^verbatim>\<open>select * from sibench\<close>
  \<^item> \<open>Drop_Table\<close>: \<^verbatim>\<open>drop table if exists sibench\<close>
  \<^item> \<open>Create_Populate n\<close>: \<^verbatim>\<open>create table sibench (i int primary key);
    insert into sibench select generate_series(1, n); analyze\<close>\<close>

datatype statement =
  Set_Serializable | Set_Repeatable_Read | Update_Where int | Select_All
  | Drop_Table | Create_Populate int

datatype diagnostic = Failed_To_Connect int | Failed_To_Set_Isolation int

text \<open>What a worker does to the outside, in order: each library call with the answer it
  got.\<close>

datatype call =
  PQconnectdb string ConnStatusType
  | PQexec statement ExecStatusType
  | PQclear
  | PQfinish
  | Gettimeofday timeval
  | Fprintf_stderr diagnostic

text \<open>The answers one worker gets. \<open>pq_exec_status env k s\<close> is the result status of
  statement \<open>s\<close> sent in iteration \<open>k\<close> of the loop, \<open>clock env k\<close> what
  \<^verbatim>\<open>gettimeofday\<close> reads at the end of iteration \<open>k\<close>, and \<open>rand_r env\<close> is libc's
  \<^verbatim>\<open>rand_r\<close>: from the seed, the number returned and the seed it leaves behind.\<close>

record worker_env =
  pq_connect_status :: ConnStatusType
  pq_isolation_status :: ExecStatusType
  pq_exec_status :: "nat \<Rightarrow> statement \<Rightarrow> ExecStatusType"
  clock :: "nat \<Rightarrow> timeval"
  rand_r :: "32 word \<Rightarrow> int \<times> 32 word"

section \<open>The worker: \<^verbatim>\<open>thread_main\<close>\<close>

text \<open>The memory the loop works on: the context it was given, the locals \<^verbatim>\<open>i\<close> and
  \<^verbatim>\<open>seed\<close>, and the calls made so far.\<close>

record worker_state =
  ctx :: thread_context
  loop_i :: int
  seed :: "32 word"
  calls :: "call list"

text \<open>Lines 78 to 80 and 86 to 88: \<^verbatim>\<open>++context->failures\<close> when the status is not the
  one wanted, then \<^verbatim>\<open>++context->transactions\<close> in either case.\<close>

definition count_failure :: "bool \<Rightarrow> thread_context \<Rightarrow> fault + thread_context" where
  "count_failure unwanted c =
     (if unwanted then and_then (c_add (failures c) 1) (\<lambda>f. Inr (c\<lparr>failures := f\<rparr>))
      else Inr c)"

definition count_transaction :: "thread_context \<Rightarrow> fault + thread_context" where
  "count_transaction c = and_then (c_add (transactions c) 1) (\<lambda>t. Inr (c\<lparr>transactions := t\<rparr>))"

text \<open>One pass through the body of \<^verbatim>\<open>for (;;)\<close>, lines 68 to 91: the statement, the
  counters, and the reading of the clock. \<open>k\<close> counts the passes made before this one.\<close>

definition loop_body :: "worker_env \<Rightarrow> nat \<Rightarrow> worker_state \<Rightarrow> fault + worker_state" where
  "loop_body env k st =
     and_then (c_add (loop_i st) 1) (\<lambda>i'.
     and_then (c_rem (loop_i st) (cycle (ctx st))) (\<lambda>r.
       if r = 0 then
         (case rand_r env (seed st) of (rv, seed') \<Rightarrow>
            and_then (c_rem rv (rows (ctx st))) (\<lambda>key.
              let res = pq_exec_status env k (Update_Where key) in
              and_then (count_failure (res \<noteq> PGRES_COMMAND_OK) (ctx st)) (\<lambda>c1.
              and_then (count_transaction c1) (\<lambda>c2.
                Inr \<lparr>ctx = c2, loop_i = i', seed = seed',
                     calls = calls st @ [PQexec (Update_Where key) res, PQclear,
                                         Gettimeofday (clock env k)]\<rparr>))))
       else
         (let res = pq_exec_status env k Select_All in
          and_then (count_failure (res \<noteq> PGRES_TUPLES_OK) (ctx st)) (\<lambda>c1.
          and_then (count_transaction c1) (\<lambda>c2.
            Inr \<lparr>ctx = c2, loop_i = i', seed = seed st,
                 calls = calls st @ [PQexec Select_All res, PQclear,
                                     Gettimeofday (clock env k)]\<rparr>)))))"

text \<open>The test of lines 92 to 94: \<open>now\<close> is at or past \<open>fin\<close>.\<close>

definition deadline_reached :: "timeval \<Rightarrow> timeval \<Rightarrow> bool" where
  "deadline_reached now fin \<longleftrightarrow>
     tv_sec now > tv_sec fin \<or> (tv_sec now = tv_sec fin \<and> tv_usec now \<ge> tv_usec fin)"

text \<open>\<^verbatim>\<open>for (;;)\<close> has no bound of its own: the loop is a partial function, \<open>None\<close> when
  it never leaves. A fault ends it at once.\<close>

partial_function (option) worker_loop ::
  "worker_env \<Rightarrow> nat \<Rightarrow> worker_state \<Rightarrow> (fault + worker_state) option" where
  "worker_loop env k st =
     (case loop_body env k st of
        Inl e \<Rightarrow> Some (Inl e)
      | Inr st' \<Rightarrow>
          if deadline_reached (clock env k) (finish_time (ctx st')) then Some (Inr st')
          else worker_loop env (Suc k) st')"

declare worker_loop.simps [code]

text \<open>The state in which \<^verbatim>\<open>thread_main\<close> enters the loop (line 65), after a connection
  and a \<^verbatim>\<open>set default_transaction_isolation\<close> that both succeeded. \<^verbatim>\<open>seed\<close> is
  \<^verbatim>\<open>thread_number\<close> converted to \<^verbatim>\<open>unsigned\<close>.\<close>

definition isolation_statement :: "thread_context \<Rightarrow> statement" where
  "isolation_statement c = (if ssi c then Set_Serializable else Set_Repeatable_Read)"

definition loop_entry :: "worker_env \<Rightarrow> thread_context \<Rightarrow> worker_state" where
  "loop_entry env c =
     \<lparr>ctx = c, loop_i = thread_number c, seed = word_of_int (thread_number c),
      calls = [PQconnectdb (conn_info c) (pq_connect_status env),
               PQexec (isolation_statement c) (pq_isolation_status env),
               PQclear]\<rparr>"

text \<open>\<^verbatim>\<open>thread_main\<close>: the context as the worker leaves it, and its calls. \<open>None\<close>: the
  worker never returns.\<close>

definition thread_main ::
  "worker_env \<Rightarrow> thread_context \<Rightarrow> (fault + thread_context \<times> call list) option" where
  "thread_main env c =
     (if pq_connect_status env \<noteq> CONNECTION_OK then
        Some (Inr (c, [PQconnectdb (conn_info c) (pq_connect_status env),
                       Fprintf_stderr (Failed_To_Connect (thread_number c))]))
      else if pq_isolation_status env \<noteq> PGRES_COMMAND_OK then
        Some (Inr (c, [PQconnectdb (conn_info c) (pq_connect_status env),
                       PQexec (isolation_statement c) (pq_isolation_status env),
                       Fprintf_stderr (Failed_To_Set_Isolation (thread_number c)),
                       PQfinish]))
      else
        (case worker_loop env 0 (loop_entry env c) of
           None \<Rightarrow> None
         | Some (Inl e) \<Rightarrow> Some (Inl e)
         | Some (Inr st) \<Rightarrow> Some (Inr (ctx st, calls st @ [PQfinish]))))"

section \<open>The driver: \<^verbatim>\<open>main\<close>\<close>

text \<open>The locals of \<^verbatim>\<open>main\<close> that the argument scan sets.\<close>

record config =
  conn_info_arg :: string
  queries_per_update_arg :: int
  rows_arg :: int
  seconds :: int
  ssi_arg :: bool
  threads :: int

definition defaults :: config where
  "defaults =
     \<lparr>conn_info_arg = ''dbname=postgres'', queries_per_update_arg = 1, rows_arg = 10,
      seconds = 60, ssi_arg = False, threads = 2\<rparr>"

text \<open>Lines 130 to 152, over \<^verbatim>\<open>argv[1]\<close> onwards; \<open>None\<close> is the
  \<^verbatim>\<open><help wanted>\<close> exit. libc's \<^verbatim>\<open>atoi\<close> is a parameter.\<close>

fun scan_args :: "(string \<Rightarrow> int) \<Rightarrow> string list \<Rightarrow> config \<Rightarrow> config option" where
  "scan_args atoi [] cfg = Some cfg"
| "scan_args atoi (arg # rest) cfg =
     (if arg = ''--conn-info'' \<and> rest \<noteq> [] then
        scan_args atoi (tl rest) (cfg\<lparr>conn_info_arg := hd rest\<rparr>)
      else if arg = ''--queries-per-update'' \<and> rest \<noteq> [] then
        scan_args atoi (tl rest) (cfg\<lparr>queries_per_update_arg := atoi (hd rest)\<rparr>)
      else if arg = ''--rows'' \<and> rest \<noteq> [] then
        scan_args atoi (tl rest) (cfg\<lparr>rows_arg := atoi (hd rest)\<rparr>)
      else if arg = ''--seconds'' \<and> rest \<noteq> [] then
        scan_args atoi (tl rest) (cfg\<lparr>seconds := atoi (hd rest)\<rparr>)
      else if arg = ''--threads'' \<and> rest \<noteq> [] then
        scan_args atoi (tl rest) (cfg\<lparr>threads := atoi (hd rest)\<rparr>)
      else if arg = ''--ssi'' then
        scan_args atoi rest (cfg\<lparr>ssi_arg := True\<rparr>)
      else None)"

text \<open>A decimal \<^verbatim>\<open>atoi\<close> for the examples: optional sign, then the leading digits.\<close>

definition digit_of :: "char \<Rightarrow> int option" where
  "digit_of ch =
     (let n = (of_char ch :: nat) in if 48 \<le> n \<and> n \<le> 57 then Some (int n - 48) else None)"

fun digits_value :: "int \<Rightarrow> string \<Rightarrow> int" where
  "digits_value acc [] = acc"
| "digits_value acc (ch # cs) =
     (case digit_of ch of None \<Rightarrow> acc | Some d \<Rightarrow> digits_value (10 * acc + d) cs)"

definition atoi_decimal :: "string \<Rightarrow> int" where
  "atoi_decimal s =
     (case s of
        [] \<Rightarrow> 0
      | ch # cs \<Rightarrow>
          if ch = CHR ''-'' then - digits_value 0 cs
          else if ch = CHR ''+'' then digits_value 0 cs
          else digits_value 0 s)"

datatype exit_status = EXIT_SUCCESS | EXIT_FAILURE

text \<open>\<^verbatim>\<open>(double) a / (double) b\<close> for two \<^verbatim>\<open>int\<close>s (line 228). Both conversions are
  exact, and the division is the IEEE 754 one in binary64, rounding to nearest with ties
  to even: the quotient is scaled by the unit in the last place of its binade, so that it
  has 53 bits before the point, rounded to an integer, and scaled back. \<open>two_to e\<close> is
  \<open>2\<close> to the power \<open>e\<close>, and \<open>binade a b\<close> is the exponent \<open>e\<close> with
  \<open>2 ^ e \<le> \<bar>a / b\<bar> < 2 ^ (e + 1)\<close>. The quotient of two \<^verbatim>\<open>int\<close>s that are not 0 lies
  between \<open>2 ^ - 31\<close> and \<open>2 ^ 31\<close>, so it neither overflows nor is subnormal. Division
  by zero gives an infinity or a NaN, and a zero over a negative number the negative
  zero.\<close>

definition two_to :: "int \<Rightarrow> rat" where
  "two_to e = (if 0 \<le> e then 2 ^ nat e else 1 / 2 ^ nat (- e))"

definition round_half_even :: "rat \<Rightarrow> int" where
  "round_half_even m =
     (let f = \<lfloor>m\<rfloor>; d = m - of_int f
      in if d < 1 / 2 then f else if 1 / 2 < d then f + 1 else if even f then f else f + 1)"

definition binade :: "int \<Rightarrow> int \<Rightarrow> int" where
  "binade a b =
     (let d = bitlen \<bar>a\<bar> - bitlen \<bar>b\<bar>
      in if two_to d * of_int \<bar>b\<bar> \<le> of_int \<bar>a\<bar> then d else d - 1)"

definition nearest_double :: "int \<Rightarrow> int \<Rightarrow> rat" where
  "nearest_double a b =
     (let ulp = two_to (binade a b - 52)
      in of_int (round_half_even (of_int a / (of_int b * ulp))) * ulp)"

datatype c_double = Finite rat | Negative_Zero | Plus_Infinity | Minus_Infinity | NaN

definition double_div :: "int \<Rightarrow> int \<Rightarrow> c_double" where
  "double_div a b =
     (if b = 0 then (if a = 0 then NaN else if 0 < a then Plus_Infinity else Minus_Infinity)
      else if a = 0 then (if b < 0 then Negative_Zero else Finite 0)
      else Finite (nearest_double a b))"

text \<open>The arguments of the one \<^verbatim>\<open>printf\<close>: \<^verbatim>\<open>TPS = %f, failures = %d\<close>.\<close>

record report =
  tps :: c_double
  failures_printed :: int

datatype main_diagnostic = Help_Wanted | Failed_To_Connect_Main | Failed_Main | Out_Of_Memory

text \<open>What \<^verbatim>\<open>main\<close> does to the outside, in order.\<close>

datatype driver_call =
  Main_gettimeofday timeval
  | Libpq call
  | Malloc int bool
  | Pthread_create nat int
  | Pthread_join nat int
  | Perror string
  | Stderr main_diagnostic
  | Printf report

text \<open>The answers \<^verbatim>\<open>main\<close> gets: libc's \<^verbatim>\<open>atoi\<close>, the clock at line 155, the data
  store during the schema setup, \<^verbatim>\<open>malloc\<close>, what \<^verbatim>\<open>pthread_create\<close> and
  \<^verbatim>\<open>pthread_join\<close> return for worker \<open>i\<close>, and the surroundings of worker \<open>i\<close>.\<close>

record driver_env =
  atoi :: "string \<Rightarrow> int"
  now_main :: timeval
  setup_connect_status :: ConnStatusType
  drop_status :: ExecStatusType
  create_status :: ExecStatusType
  malloc_succeeds :: bool
  pthread_create_result :: "nat \<Rightarrow> int"
  pthread_join_result :: "nat \<Rightarrow> int"
  worker_envs :: "nat \<Rightarrow> worker_env"

text \<open>The array \<^verbatim>\<open>thread_contexts\<close> as far as it has been written, and the calls so
  far.\<close>

record driver_state =
  thread_contexts :: "thread_context list"
  trace :: "driver_call list"

text \<open>How \<^verbatim>\<open>main\<close> ends: with an exit status, or in undefined behaviour.\<close>

type_synonym ending = "fault + exit_status"

text \<open>Lines 192 to 200: the context of worker \<open>i\<close> as \<^verbatim>\<open>main\<close> fills it in.\<close>

definition initial_context :: "config \<Rightarrow> timeval \<Rightarrow> nat \<Rightarrow> int \<Rightarrow> thread_context" where
  "initial_context cfg fin i cyc =
     \<lparr>thread_handle = None, conn_info = conn_info_arg cfg, finish_time = fin,
      queries_per_update = queries_per_update_arg cfg, rows = rows_arg cfg, ssi = ssi_arg cfg,
      thread_number = int i, transactions = 0, failures = 0, cycle = cyc\<rparr>"

text \<open>The launch loop, lines 187 to 209, over the indices still to launch.
  \<^verbatim>\<open>pthread_create\<close> returning 0 has started the worker and stored its handle; any other
  return leaves the handle indeterminate. The first component is \<open>Some\<close> when \<^verbatim>\<open>main\<close>
  ends here.\<close>

fun launch_workers ::
  "driver_env \<Rightarrow> config \<Rightarrow> timeval \<Rightarrow> nat list \<Rightarrow> driver_state \<Rightarrow> ending option \<times> driver_state"
  where
  "launch_workers env cfg fin [] ds = (None, ds)"
| "launch_workers env cfg fin (i # rest) ds =
     (case c_add (queries_per_update_arg cfg) 1 of
        Inl e \<Rightarrow> (Some (Inl e), ds)
      | Inr cyc \<Rightarrow>
          let rc = pthread_create_result env i;
              c = (initial_context cfg fin i cyc)
                    \<lparr>thread_handle := (if rc = 0 then Some i else None)\<rparr>;
              ds' = ds\<lparr>thread_contexts := thread_contexts ds @ [c],
                       trace := trace ds @ [Pthread_create i rc]\<rparr>
          in if rc < 0 then
               (Some (Inr EXIT_FAILURE), ds'\<lparr>trace := trace ds' @ [Perror ''pthread_create'']\<rparr>)
             else launch_workers env cfg fin rest ds')"

text \<open>The join loop, lines 211 to 218, over the contexts still to join; \<open>i\<close> is the index
  of the first of them, and the state collects the contexts already joined. Joining a
  handle that was never stored is undefined. A join that returns 0 has waited for the worker: its context
  then holds what \<^verbatim>\<open>thread_main\<close> left there, a worker that faulted has taken the process
  down, and a worker that never returns keeps \<^verbatim>\<open>main\<close> waiting (\<open>None\<close>). A join that
  returns a positive error has not waited, and reading that worker's counters later races
  with it.\<close>

fun join_workers ::
  "driver_env \<Rightarrow> nat \<Rightarrow> thread_context list \<Rightarrow> driver_state \<Rightarrow> (ending option \<times> driver_state) option"
  where
  "join_workers env i [] ds = Some (None, ds)"
| "join_workers env i (c # rest) ds =
     (case thread_handle c of
        None \<Rightarrow> Some (Some (Inl Indeterminate_Thread_Handle), ds)
      | Some h \<Rightarrow>
          let rc = pthread_join_result env i;
              ds' = ds\<lparr>trace := trace ds @ [Pthread_join i rc]\<rparr>
          in if rc < 0 then
               Some (Some (Inr EXIT_FAILURE), ds'\<lparr>trace := trace ds' @ [Perror ''pthread_join'']\<rparr>)
             else if rc \<noteq> 0 then Some (Some (Inl Data_Race), ds')
             else
               (case thread_main (worker_envs env h) c of
                  None \<Rightarrow> None
                | Some (Inl e) \<Rightarrow> Some (Some (Inl e), ds')
                | Some (Inr (c', cs)) \<Rightarrow>
                    join_workers env (Suc i) rest
                      (ds'\<lparr>thread_contexts := thread_contexts ds' @ [c']\<rparr>)))"

text \<open>The summing loop, lines 220 to 226.\<close>

fun count_up :: "thread_context list \<Rightarrow> int \<times> int \<Rightarrow> fault + int \<times> int" where
  "count_up [] totals = Inr totals"
| "count_up (c # rest) (total_transactions, total_failures) =
     and_then (c_add total_transactions (transactions c)) (\<lambda>tt.
     and_then (c_add total_failures (failures c)) (\<lambda>tf.
       count_up rest (tt, tf)))"

text \<open>What is left of a run of \<^verbatim>\<open>main\<close>: how it ended, the contexts at that moment, and
  its calls.\<close>

record main_result =
  ending_of :: ending
  contexts_of :: "thread_context list"
  trace_of :: "driver_call list"

definition finish :: "ending \<Rightarrow> driver_state \<Rightarrow> driver_call list \<Rightarrow> main_result option" where
  "finish e ds last_calls =
     Some \<lparr>ending_of = e, contexts_of = thread_contexts ds, trace_of = trace ds @ last_calls\<rparr>"

text \<open>Lines 154 to 231, after a successful argument scan.\<close>

definition run_benchmark :: "driver_env \<Rightarrow> config \<Rightarrow> main_result option" where
  "run_benchmark env cfg =
     (let fin = (now_main env)\<lparr>tv_sec := tv_sec (now_main env) + seconds cfg\<rparr>;
          ds0 = \<lparr>thread_contexts = [],
                 trace = [Main_gettimeofday (now_main env),
                          Libpq (PQconnectdb (conn_info_arg cfg) (setup_connect_status env))]\<rparr>
      in
      if setup_connect_status env \<noteq> CONNECTION_OK then
        finish (Inr EXIT_FAILURE) ds0 [Stderr Failed_To_Connect_Main]
      else
        let ds1 = ds0\<lparr>trace := trace ds0 @ [Libpq (PQexec Drop_Table (drop_status env))]\<rparr> in
        if drop_status env \<noteq> PGRES_COMMAND_OK then
          finish (Inr EXIT_FAILURE) ds1 [Stderr Failed_Main, Libpq PQfinish]
        else
          let ds2 = ds1\<lparr>trace := trace ds1 @
                      [Libpq PQclear,
                       Libpq (PQexec (Create_Populate (rows_arg cfg)) (create_status env))]\<rparr>
          in
          if create_status env \<noteq> PGRES_COMMAND_OK then
            finish (Inr EXIT_FAILURE) ds2 [Stderr Failed_Main, Libpq PQfinish]
          else
            let ds3 = ds2\<lparr>trace := trace ds2 @
                        [Libpq PQclear, Libpq PQfinish,
                         Malloc (threads cfg) (malloc_succeeds env)]\<rparr>
            in
            if \<not> malloc_succeeds env then
              finish (Inr EXIT_FAILURE) ds3 [Stderr Out_Of_Memory]
            else
              (case launch_workers env cfg fin [0..<nat (threads cfg)] ds3 of
                 (Some e, ds4) \<Rightarrow> finish e ds4 []
               | (None, ds4) \<Rightarrow>
                   (case join_workers env 0 (thread_contexts ds4)
                           (ds4\<lparr>thread_contexts := []\<rparr>) of
                      None \<Rightarrow> None
                    | Some (Some e, ds5) \<Rightarrow> finish e ds5 []
                    | Some (None, ds5) \<Rightarrow>
                        (case count_up (thread_contexts ds5) (0, 0) of
                           Inl e \<Rightarrow> finish (Inl e) ds5 []
                         | Inr (total_transactions, total_failures) \<Rightarrow>
                             finish (Inr EXIT_SUCCESS) ds5
                               [Printf \<lparr>tps = double_div total_transactions (seconds cfg),
                                        failures_printed = total_failures\<rparr>]))))"

text \<open>\<^verbatim>\<open>main\<close>, on \<^verbatim>\<open>argv[1]\<close> onwards. \<open>None\<close>: it never returns.\<close>

definition main :: "driver_env \<Rightarrow> string list \<Rightarrow> main_result option" where
  "main env argv =
     (case scan_args (atoi env) argv defaults of
        None \<Rightarrow>
          Some \<lparr>ending_of = Inr EXIT_FAILURE, contexts_of = [], trace_of = [Stderr Help_Wanted]\<rparr>
      | Some cfg \<Rightarrow> run_benchmark env cfg)"

section \<open>Notions the properties are stated with\<close>

text \<open>The state after \<open>n\<close> passes through the loop body, the first of them pass number
  \<open>k\<close>, with no look at the clock: what the memory holds at every moment of a run.\<close>

fun iterate_body :: "worker_env \<Rightarrow> nat \<Rightarrow> nat \<Rightarrow> worker_state \<Rightarrow> fault + worker_state" where
  "iterate_body env k 0 st = Inr st"
| "iterate_body env k (Suc n) st = and_then (loop_body env k st) (iterate_body env (Suc k) n)"

text \<open>Check number \<open>k + n\<close> is the first from check \<open>k\<close> on that finds the clock at or
  past \<open>fin\<close>.\<close>

definition first_reached :: "worker_env \<Rightarrow> timeval \<Rightarrow> nat \<Rightarrow> nat \<Rightarrow> bool" where
  "first_reached env fin k n \<longleftrightarrow>
     deadline_reached (clock env (k + n)) fin \<and>
     (\<forall>j<n. \<not> deadline_reached (clock env (k + j)) fin)"

text \<open>An instant as a number of microseconds, and the readings \<^verbatim>\<open>gettimeofday\<close> gives:
  \<^verbatim>\<open>tv_usec\<close> below a million and not negative.\<close>

definition microseconds :: "timeval \<Rightarrow> int" where
  "microseconds t = 1000000 * tv_sec t + tv_usec t"

definition normalised :: "timeval \<Rightarrow> bool" where
  "normalised t \<longleftrightarrow> 0 \<le> tv_usec t \<and> tv_usec t < 1000000"

text \<open>Everything in a context but its two counters.\<close>

definition unchanged_config :: "thread_context \<Rightarrow> thread_context \<Rightarrow> bool" where
  "unchanged_config c c' \<longleftrightarrow>
     thread_handle c' = thread_handle c \<and> conn_info c' = conn_info c \<and>
     finish_time c' = finish_time c \<and> queries_per_update c' = queries_per_update c \<and>
     rows c' = rows c \<and> ssi c' = ssi c \<and> thread_number c' = thread_number c \<and>
     cycle c' = cycle c"

text \<open>The result status the loop accepts for a statement (lines 78 and 86).\<close>

definition expected_status :: "statement \<Rightarrow> ExecStatusType" where
  "expected_status s = (if s = Select_All then PGRES_TUPLES_OK else PGRES_COMMAND_OK)"

definition is_update :: "statement \<Rightarrow> bool" where
  "is_update s = (case s of Update_Where key \<Rightarrow> True | _ \<Rightarrow> False)"

definition is_gettimeofday :: "call \<Rightarrow> bool" where
  "is_gettimeofday x = (case x of Gettimeofday t \<Rightarrow> True | _ \<Rightarrow> False)"

text \<open>The statements of the loop among a worker's calls, each with its result status, in
  the order sent.\<close>

fun loop_statements :: "call list \<Rightarrow> (statement \<times> ExecStatusType) list" where
  "loop_statements [] = []"
| "loop_statements (PQexec (Update_Where key) res # cs) =
     (Update_Where key, res) # loop_statements cs"
| "loop_statements (PQexec Select_All res # cs) = (Select_All, res) # loop_statements cs"
| "loop_statements (other # cs) = loop_statements cs"

text \<open>The memory of a worker after its \<open>n\<close>-th pass through the loop body (\<open>Inl\<close> if one
  of these passes ran into undefined behaviour). The loop of \<^verbatim>\<open>thread_main\<close> returns the
  value of \<open>worker_passes\<close> at the first check that finds the deadline reached.\<close>

definition worker_passes :: "worker_env \<Rightarrow> thread_context \<Rightarrow> nat \<Rightarrow> fault + worker_state" where
  "worker_passes env c n = iterate_body env 0 n (loop_entry env c)"

text \<open>A statement that did not complete successfully: its result status is not the one
  the loop accepts for it.\<close>

definition failed :: "statement \<times> ExecStatusType \<Rightarrow> bool" where
  "failed sr \<longleftrightarrow> snd sr \<noteq> expected_status (fst sr)"

text \<open>What one pass sends: with \<^verbatim>\<open>i\<close> at \<open>i0\<close> on entry and \<open>k\<close> passes before it, the
  statement is an update exactly when \<^verbatim>\<open>i % cycle\<close> is 0, a select otherwise, the key of
  an update is a remainder modulo \<^verbatim>\<open>rows\<close>, and the status is the data store's answer.\<close>

definition pass_statement ::
  "worker_env \<Rightarrow> thread_context \<Rightarrow> int \<Rightarrow> nat \<Rightarrow> statement \<times> ExecStatusType \<Rightarrow> bool" where
  "pass_statement env c i0 k sr \<longleftrightarrow>
     snd sr = pq_exec_status env k (fst sr) \<and>
     (is_update (fst sr) \<longleftrightarrow> c_rem i0 (cycle c) = Inr 0) \<and>
     (fst sr = Select_All \<or> (\<exists>key rv. fst sr = Update_Where key \<and> c_rem rv (rows c) = Inr key))"

section \<open>Example surroundings\<close>

text \<open>A table of one row (\<^verbatim>\<open>--rows 1\<close>), worker 0 of a run with the other defaults, a
  data store that accepts everything, any \<^verbatim>\<open>rand_r\<close>, and a clock that stands at the
  deadline.\<close>

definition one_row_env :: "(32 word \<Rightarrow> int \<times> 32 word) \<Rightarrow> worker_env" where
  "one_row_env rnd =
     \<lparr>pq_connect_status = CONNECTION_OK, pq_isolation_status = PGRES_COMMAND_OK,
      pq_exec_status = (\<lambda>k s. expected_status s),
      clock = (\<lambda>k. \<lparr>tv_sec = 60, tv_usec = 0\<rparr>), rand_r = rnd\<rparr>"

definition one_row_context :: thread_context where
  "one_row_context =
     (initial_context (defaults\<lparr>rows_arg := 1\<rparr>) \<lparr>tv_sec = 60, tv_usec = 0\<rparr> 0 2)
       \<lparr>thread_handle := Some 0\<rparr>"

section \<open>Notions for the driver\<close>

text \<open>The finish time of lines 155 and 156: the clock of \<^verbatim>\<open>main\<close> with \<^verbatim>\<open>seconds\<close> added to
  \<^verbatim>\<open>tv_sec\<close>.\<close>

definition deadline :: "driver_env \<Rightarrow> config \<Rightarrow> timeval" where
  "deadline env cfg = (now_main env)\<lparr>tv_sec := tv_sec (now_main env) + seconds cfg\<rparr>"

text \<open>The context worker \<open>i\<close> is started on, when \<^verbatim>\<open>pthread_create\<close> succeeds.\<close>

definition launched_context :: "driver_env \<Rightarrow> config \<Rightarrow> nat \<Rightarrow> thread_context" where
  "launched_context env cfg i =
     (initial_context cfg (deadline env cfg) i (queries_per_update_arg cfg + 1))
       \<lparr>thread_handle := Some i\<rparr>"

text \<open>The schema setup and \<^verbatim>\<open>malloc\<close> all succeed.\<close>

definition setup_ok :: "driver_env \<Rightarrow> bool" where
  "setup_ok env \<longleftrightarrow>
     setup_connect_status env = CONNECTION_OK \<and> drop_status env = PGRES_COMMAND_OK \<and>
     create_status env = PGRES_COMMAND_OK \<and> malloc_succeeds env"

text \<open>The calls of \<^verbatim>\<open>main\<close> up to the launch loop, when they all succeed.\<close>

definition setup_calls :: "driver_env \<Rightarrow> config \<Rightarrow> driver_call list" where
  "setup_calls env cfg =
     [Main_gettimeofday (now_main env),
      Libpq (PQconnectdb (conn_info_arg cfg) CONNECTION_OK),
      Libpq (PQexec Drop_Table PGRES_COMMAND_OK), Libpq PQclear,
      Libpq (PQexec (Create_Populate (rows_arg cfg)) PGRES_COMMAND_OK), Libpq PQclear,
      Libpq PQfinish, Malloc (threads cfg) True]"

definition is_printf :: "driver_call \<Rightarrow> bool" where
  "is_printf x = (case x of Printf rep \<Rightarrow> True | _ \<Rightarrow> False)"

definition is_pthread_create :: "driver_call \<Rightarrow> bool" where
  "is_pthread_create x = (case x of Pthread_create i rc \<Rightarrow> True | _ \<Rightarrow> False)"

definition is_main_gettimeofday :: "driver_call \<Rightarrow> bool" where
  "is_main_gettimeofday x = (case x of Main_gettimeofday t \<Rightarrow> True | _ \<Rightarrow> False)"

definition is_thread_call :: "driver_call \<Rightarrow> bool" where
  "is_thread_call x =
     (case x of Pthread_create i rc \<Rightarrow> True | Pthread_join i rc \<Rightarrow> True | Perror s \<Rightarrow> True
      | _ \<Rightarrow> False)"

text \<open>The report for a list of contexts: the sums of their counters, the first divided by
  the configured \<^verbatim>\<open>seconds\<close>.\<close>

definition printed_report :: "driver_env \<Rightarrow> config \<Rightarrow> thread_context list \<Rightarrow> report" where
  "printed_report env cfg cs =
     \<lparr>tps = double_div (sum_list (map transactions cs)) (seconds cfg),
      failures_printed = sum_list (map failures cs)\<rparr>"

section \<open>An example run\<close>

text \<open>\<^verbatim>\<open>petit-sibench --threads 3 --seconds 9 --rows 5\<close>, started at second 1000. Every
  pass of a worker takes five seconds, so a worker that runs makes three passes and finds
  the deadline one second behind it. The data
  store rejects every update and accepts every select; worker 1 cannot connect. The
  generator is the sample one of the C standard.\<close>

definition demo_rand_r :: "32 word \<Rightarrow> int \<times> 32 word" where
  "demo_rand_r s =
     (let next = s * 1103515245 + 12345 in (uint next div 65536 mod 32768, next))"

definition demo_worker :: "nat \<Rightarrow> worker_env" where
  "demo_worker i =
     \<lparr>pq_connect_status = (if i = 1 then CONNECTION_BAD else CONNECTION_OK),
      pq_isolation_status = PGRES_COMMAND_OK,
      pq_exec_status = (\<lambda>k s. if is_update s then PGRES_FATAL_ERROR else PGRES_TUPLES_OK),
      clock = (\<lambda>k. \<lparr>tv_sec = 1000 + 5 * int k, tv_usec = 500\<rparr>),
      rand_r = demo_rand_r\<rparr>"

definition demo_env :: driver_env where
  "demo_env =
     \<lparr>atoi = atoi_decimal, now_main = \<lparr>tv_sec = 1000, tv_usec = 500\<rparr>,
      setup_connect_status = CONNECTION_OK, drop_status = PGRES_COMMAND_OK,
      create_status = PGRES_COMMAND_OK, malloc_succeeds = True,
      pthread_create_result = (\<lambda>i. 0), pthread_join_result = (\<lambda>i. 0),
      worker_envs = demo_worker\<rparr>"

definition demo_argv :: "string list" where
  "demo_argv = [''--threads'', ''3'', ''--seconds'', ''9'', ''--rows'', ''5'']"

definition demo_config :: config where
  "demo_config = defaults\<lparr>threads := 3, seconds := 9, rows_arg := 5\<rparr>"

definition demo_context :: "nat \<Rightarrow> thread_context" where
  "demo_context i = launched_context demo_env demo_config i"

text \<open>The contexts at the end of the example run: workers 0 and 2 with three transactions,
  two of them failed updates; worker 1 untouched.\<close>

definition demo_finals :: "thread_context list" where
  "demo_finals =
     [(demo_context 0)\<lparr>transactions := 3, failures := 2\<rparr>,
      demo_context 1,
      (demo_context 2)\<lparr>transactions := 3, failures := 2\<rparr>]"

text \<open>Worker 0 of the example when the run is given \<^verbatim>\<open>--seconds 0\<close>: the deadline is the
  moment \<^verbatim>\<open>main\<close> read the clock.\<close>

definition zero_seconds_context :: thread_context where
  "zero_seconds_context = launched_context demo_env (demo_config\<lparr>seconds := 0\<rparr>) 0"

text \<open>The example run with a \<^verbatim>\<open>pthread_create\<close> that fails for the last worker,
  returning the error number \<^verbatim>\<open>EAGAIN\<close> (11 on Linux) as POSIX has it.\<close>

definition eagain_env :: driver_env where
  "eagain_env = demo_env\<lparr>pthread_create_result := (\<lambda>i. if i = 2 then 11 else 0)\<rparr>"

text \<open>What the argument scan makes of \<^verbatim>\<open>--rows 0\<close>.\<close>

definition zero_rows_config :: config where
  "zero_rows_config = defaults\<lparr>rows_arg := 0\<rparr>"

section \<open>Arithmetic and sequencing\<close>

lemma c_rem_one: "c_rem a 1 = Inr 0"
  by (simp add: c_rem_def)

lemma c_rem_range:
  assumes "0 \<le> a" "1 \<le> b" "c_rem a b = Inr key"
  shows "0 \<le> key \<and> key < b"
proof -
  from assms have "key = sgn a * (a mod b)" by (simp add: c_rem_def split: if_splits)
  with assms(1,2) show ?thesis by (cases "a = 0") simp_all
qed

lemma and_then_Inr: "and_then r f = Inr y \<longleftrightarrow> (\<exists>v. r = Inr v \<and> f v = Inr y)"
  by (cases r) (simp_all add: and_then_def)

lemma and_then_simps [simp]: "and_then (Inl e) f = Inl e" "and_then (Inr v) f = f v"
  by (simp_all add: and_then_def)

lemma c_add_Inr: "c_add a b = Inr v \<longleftrightarrow> v = a + b \<and> INT_MIN \<le> a + b \<and> a + b \<le> INT_MAX"
  by (auto simp: c_add_def)

lemma c_rem_zero_iff:
  "0 \<le> a \<Longrightarrow> 1 \<le> b \<Longrightarrow> c_rem a b = Inr 0 \<longleftrightarrow> a mod b = 0"
  by (cases "a = 0") (simp_all add: c_rem_def INT_MIN_def)

lemma one_multiple_per_window:
  fixes t c :: int
  assumes "1 \<le> c"
  shows "\<exists>!j::nat. a \<le> j \<and> j < a + nat c \<and> (t + int j) mod c = 0"
proof -
  define d where "d = (- (t + int a)) mod c"
  have d: "0 \<le> d" "d < c" using assms by (simp_all add: d_def)
  define j0 where "j0 = a + nat d"
  have ij0: "int j0 = int a + d" using d by (simp add: j0_def)
  have "(t + int j0) mod c = ((t + int a) + d) mod c" by (simp add: ij0 add.assoc)
  also have "\<dots> = ((t + int a) + (- (t + int a))) mod c"
    unfolding d_def by (rule mod_add_right_eq)
  also have "\<dots> = 0" by simp
  finally have m0: "(t + int j0) mod c = 0" .
  have w: "a \<le> j0" "j0 < a + nat c" using d assms by (simp_all add: j0_def)
  show ?thesis
  proof (rule ex1I[of _ j0])
    show "a \<le> j0 \<and> j0 < a + nat c \<and> (t + int j0) mod c = 0" using w m0 by blast
  next
    fix j assume j: "a \<le> j \<and> j < a + nat c \<and> (t + int j) mod c = 0"
    have "c dvd (t + int j)" "c dvd (t + int j0)"
      using j m0 by (simp_all add: mod_eq_0_iff_dvd)
    then have "c dvd ((t + int j) - (t + int j0))" by (rule dvd_diff)
    then have dv: "c dvd \<bar>int j - int j0\<bar>" by simp
    have lt: "\<bar>int j - int j0\<bar> < c" using j w assms by linarith
    have "\<bar>int j - int j0\<bar> = 0"
    proof (rule ccontr)
      assume "\<bar>int j - int j0\<bar> \<noteq> 0"
      then have "0 < \<bar>int j - int j0\<bar>" by simp
      from zdvd_imp_le[OF dv this] lt show False by simp
    qed
    then show "j = j0" by simp
  qed
qed

lemma sum_list_skip_index:
  assumes "f z = 0"
  shows "sum_list (map f (map (\<lambda>i. if i = j then z else g i) xs)) =
         sum_list (map (\<lambda>i. f (g i)) (filter (\<lambda>i. i \<noteq> j) xs))"
  using assms by (induction xs) simp_all

lemma less_3_cases: "i < (3::nat) \<Longrightarrow> i = 0 \<or> i = 1 \<or> i = 2"
  by arith

section \<open>The division in \<^verbatim>\<open>double\<close>\<close>

lemma two_to_pos: "0 < two_to e"
  by (simp add: two_to_def)

lemma two_to_Suc: "two_to (e + 1) = 2 * two_to e"
proof (cases "0 \<le> e")
  case True
  then show ?thesis by (simp add: two_to_def nat_add_distrib)
next
  case False
  then have "nat (- e) = Suc (nat (- (e + 1)))" by simp
  then show ?thesis using False by (simp add: two_to_def)
qed

lemma two_to_add_nat: "two_to (e + int n) = 2 ^ n * two_to e"
proof (induction n)
  case 0
  then show ?case by simp
next
  case (Suc n)
  have "e + int (Suc n) = (e + int n) + 1" by simp
  then have "two_to (e + int (Suc n)) = two_to ((e + int n) + 1)" by (rule arg_cong)
  also have "\<dots> = 2 * two_to (e + int n)" by (rule two_to_Suc)
  finally show ?case using Suc by simp
qed

lemma two_to_nat: "two_to (int n) = 2 ^ n"
  by (simp add: two_to_def)

lemma two_to_diff:
  "two_to (int p - int q) = 2 ^ p / 2 ^ q"
proof -
  have "two_to (int p - int q + int q) = 2 ^ q * two_to (int p - int q)" by (rule two_to_add_nat)
  then have "2 ^ p = 2 ^ q * two_to (int p - int q)" by (simp add: two_to_nat)
  then show ?thesis by (simp add: field_simps)
qed

lemma round_half_even_error: "\<bar>of_int (round_half_even m) - m\<bar> \<le> 1 / 2"
proof -
  have "of_int \<lfloor>m\<rfloor> \<le> m" "m < of_int \<lfloor>m\<rfloor> + 1" by linarith+
  then show ?thesis by (auto simp: round_half_even_def Let_def)
qed

lemma binade_bounds:
  assumes "a \<noteq> 0" "b \<noteq> 0"
  shows "two_to (binade a b) * of_int \<bar>b\<bar> \<le> of_int \<bar>a\<bar>"
    and "(of_int \<bar>a\<bar> :: rat) < two_to (binade a b + 1) * of_int \<bar>b\<bar>"
proof -
  let ?la = "bitlen \<bar>a\<bar>" and ?lb = "bitlen \<bar>b\<bar>"
  have pa: "0 < \<bar>a\<bar>" and pb: "0 < \<bar>b\<bar>" using assms by simp_all
  from bitlen_bounds[OF pa] have a1: "2 ^ nat (?la - 1) \<le> \<bar>a\<bar>" and a2: "\<bar>a\<bar> < 2 ^ nat ?la" by simp_all
  from bitlen_bounds[OF pb] have b1: "2 ^ nat (?lb - 1) \<le> \<bar>b\<bar>" and b2: "\<bar>b\<bar> < 2 ^ nat ?lb" by simp_all
  have la: "1 \<le> ?la" and lb: "1 \<le> ?lb"
    using pa pb bitlen_eq_zero_iff[of "\<bar>a\<bar>"] bitlen_eq_zero_iff[of "\<bar>b\<bar>"] bitlen_nonneg[of "\<bar>a\<bar>"] bitlen_nonneg[of "\<bar>b\<bar>"]
    by linarith+
  define p where "p = nat (?la - 1)"
  define q where "q = nat (?lb - 1)"
  have lap: "?la = int p + 1" and lbq: "?lb = int q + 1" using la lb by (simp_all add: p_def q_def)
  have A1: "(2::rat) ^ p \<le> of_int \<bar>a\<bar>" using a1 unfolding p_def[symmetric]
    by (metis of_int_le_iff of_int_numeral of_int_power)
  have A2: "(of_int \<bar>a\<bar> :: rat) < 2 ^ Suc p"
  proof -
    have "nat ?la = Suc p" using lap by simp
    with a2 have "\<bar>a\<bar> < 2 ^ Suc p" by simp
    then have "(of_int \<bar>a\<bar> :: rat) < of_int (2 ^ Suc p)" by (simp only: of_int_less_iff)
    then show ?thesis by simp
  qed
  have B1: "(2::rat) ^ q \<le> of_int \<bar>b\<bar>" using b1 unfolding q_def[symmetric]
    by (metis of_int_le_iff of_int_numeral of_int_power)
  have B2: "(of_int \<bar>b\<bar> :: rat) < 2 ^ Suc q"
  proof -
    have "nat ?lb = Suc q" using lbq by simp
    with b2 have "\<bar>b\<bar> < 2 ^ Suc q" by simp
    then have "(of_int \<bar>b\<bar> :: rat) < of_int (2 ^ Suc q)" by (simp only: of_int_less_iff)
    then show ?thesis by simp
  qed
  have d: "?la - ?lb = int p - int q" using lap lbq by simp
  have Bpos: "(0::rat) < of_int \<bar>b\<bar>" using pb by simp
  have low: "two_to (int p - int q - 1) * of_int \<bar>b\<bar> \<le> of_int \<bar>a\<bar>"
  proof -
    have "two_to (int p - int q - 1 + 1) = 2 * two_to (int p - int q - 1)" by (rule two_to_Suc)
    then have "two_to (int p - int q - 1) = 2 ^ p / 2 ^ q / 2" by (simp add: two_to_diff)
    then have "two_to (int p - int q - 1) * of_int \<bar>b\<bar> = 2 ^ p * (of_int \<bar>b\<bar> / 2 ^ Suc q)"
      by simp
    also have "\<dots> \<le> 2 ^ p * 1"
      using B2 by (intro mult_left_mono) (simp_all add: field_simps)
    also have "\<dots> \<le> of_int \<bar>a\<bar>" using A1 by simp
    finally show ?thesis .
  qed
  have high: "(of_int \<bar>a\<bar> :: rat) < two_to (int p - int q + 1) * of_int \<bar>b\<bar>"
  proof -
    have "two_to (int p - int q + 1) = 2 * (2 ^ p / 2 ^ q)" by (simp add: two_to_Suc two_to_diff)
    then have "two_to (int p - int q + 1) * of_int \<bar>b\<bar> = 2 ^ Suc p * (of_int \<bar>b\<bar> / 2 ^ q)"
      by simp
    moreover have "(1::rat) \<le> of_int \<bar>b\<bar> / 2 ^ q" using B1 by (simp add: field_simps)
    then have "(2::rat) ^ Suc p * 1 \<le> 2 ^ Suc p * (of_int \<bar>b\<bar> / 2 ^ q)"
      by (intro mult_left_mono) simp_all
    ultimately show ?thesis using A2 by linarith
  qed
  show "two_to (binade a b) * of_int \<bar>b\<bar> \<le> of_int \<bar>a\<bar>"
    using low by (simp add: binade_def Let_def d)
  show "(of_int \<bar>a\<bar> :: rat) < two_to (binade a b + 1) * of_int \<bar>b\<bar>"
    using high by (auto simp: binade_def Let_def d not_le)
qed


lemma two_to_52: "two_to e = 2 ^ 52 * two_to (e - 52)"
  using two_to_add_nat[of "e - 52" 52] by simp

lemma nearest_double_shape:
  assumes "a \<noteq> 0" "b \<noteq> 0"
  defines "x \<equiv> (of_int a / of_int b :: rat)"
  defines "ulp \<equiv> two_to (binade a b - 52)"
  shows "nearest_double a b = of_int (round_half_even (x / ulp)) * ulp"
    and "0 < ulp"
    and "2 ^ 52 * ulp \<le> \<bar>x\<bar>" and "\<bar>x\<bar> < 2 ^ 53 * ulp"
proof -
  show "nearest_double a b = of_int (round_half_even (x / ulp)) * ulp"
    by (simp add: nearest_double_def Let_def x_def ulp_def)
  show u: "0 < ulp" by (simp add: ulp_def two_to_pos)
  have bp: "(0::rat) < of_int \<bar>b\<bar>" using assms(2) by simp
  have ax: "\<bar>x\<bar> = of_int \<bar>a\<bar> / of_int \<bar>b\<bar>" by (simp add: x_def)
  from binade_bounds(1)[OF assms(1,2)] bp have "two_to (binade a b) \<le> \<bar>x\<bar>"
    unfolding ax by (simp add: pos_le_divide_eq)
  then show "2 ^ 52 * ulp \<le> \<bar>x\<bar>" unfolding ulp_def two_to_52[symmetric] .
  from binade_bounds(2)[OF assms(1,2)] bp have "\<bar>x\<bar> < two_to (binade a b + 1)"
    unfolding ax by (simp add: pos_divide_less_eq)
  also have "\<dots> = 2 ^ 53 * ulp"
    unfolding ulp_def two_to_Suc two_to_52[of "binade a b"] by simp
  finally show "\<bar>x\<bar> < 2 ^ 53 * ulp" .
qed

lemma nearest_double_error:
  assumes "a \<noteq> 0" "b \<noteq> 0"
  shows "\<bar>nearest_double a b - of_int a / of_int b\<bar> \<le> \<bar>of_int a / of_int b\<bar> / 2 ^ 53"
proof -
  define x where "x = (of_int a / of_int b :: rat)"
  define ulp where "ulp = two_to (binade a b - 52)"
  note S = nearest_double_shape[OF assms, folded x_def ulp_def]
  have "nearest_double a b - x = (of_int (round_half_even (x / ulp)) - x / ulp) * ulp"
    using S(2) by (simp add: S(1) field_simps)
  then have "\<bar>nearest_double a b - x\<bar> = \<bar>of_int (round_half_even (x / ulp)) - x / ulp\<bar> * ulp"
    using S(2) by (simp add: abs_mult)
  also have "\<dots> \<le> 1 / 2 * ulp"
    using S(2) round_half_even_error[of "x / ulp"] by (intro mult_right_mono) simp_all
  also have "\<dots> \<le> \<bar>x\<bar> / 2 ^ 53" using S(3) by simp
  finally show ?thesis unfolding x_def .
qed

lemma round_half_even_bounds:
  assumes "of_int lo \<le> m" "m \<le> of_int hi"
  shows "lo \<le> round_half_even m" "round_half_even m \<le> hi"
proof -
  have f: "of_int \<lfloor>m\<rfloor> \<le> m" "m < of_int \<lfloor>m\<rfloor> + 1" by linarith+
  have lf: "lo \<le> \<lfloor>m\<rfloor>" using assms(1) by (simp add: le_floor_iff)
  have fh: "\<lfloor>m\<rfloor> \<le> hi" using assms(2) by (simp add: floor_le_iff)
  show "lo \<le> round_half_even m" using lf by (auto simp: round_half_even_def Let_def)
  show "round_half_even m \<le> hi"
  proof (cases "m = of_int \<lfloor>m\<rfloor>")
    case True
    then have "m - of_int \<lfloor>m\<rfloor> = 0" by simp
    then show ?thesis using fh by (simp add: round_half_even_def Let_def)
  next
    case False
    then have "of_int \<lfloor>m\<rfloor> < m" using f(1) by linarith
    then have "of_int \<lfloor>m\<rfloor> < (of_int hi :: rat)" using assms(2) by linarith
    then have "\<lfloor>m\<rfloor> < hi" by simp
    then show ?thesis by (auto simp: round_half_even_def Let_def)
  qed
qed

lemma nearest_double_significand:
  assumes "a \<noteq> 0" "b \<noteq> 0"
  shows "\<exists>k. nearest_double a b = of_int k * two_to (binade a b - 52) \<and>
             2 ^ 52 \<le> \<bar>k\<bar> \<and> \<bar>k\<bar> \<le> 2 ^ 53"
proof -
  define x where "x = (of_int a / of_int b :: rat)"
  define ulp where "ulp = two_to (binade a b - 52)"
  note S = nearest_double_shape[OF assms, folded x_def ulp_def]
  define m where "m = x / ulp"
  have am: "2 ^ 52 \<le> \<bar>m\<bar>" "\<bar>m\<bar> < 2 ^ 53"
    using S(2,3,4) by (simp_all add: m_def pos_le_divide_eq pos_divide_less_eq)
  define k where "k = round_half_even m"
  have "2 ^ 52 \<le> \<bar>k\<bar> \<and> \<bar>k\<bar> \<le> 2 ^ 53"
  proof (cases "0 \<le> m")
    case True
    with am have "of_int (2 ^ 52) \<le> m" "m \<le> of_int (2 ^ 53)" by simp_all
    from round_half_even_bounds[OF this] show ?thesis by (simp add: k_def)
  next
    case False
    with am have "of_int (- (2 ^ 53)) \<le> m" "m \<le> of_int (- (2 ^ 52))" by simp_all
    from round_half_even_bounds[OF this] show ?thesis by (simp add: k_def)
  qed
  moreover have "nearest_double a b = of_int k * ulp" by (simp add: S(1) k_def m_def)
  ultimately show ?thesis unfolding ulp_def by blast
qed


lemma two_to_mono: "i \<le> j \<Longrightarrow> two_to i \<le> two_to j"
proof -
  assume "i \<le> j"
  then have "j = i + int (nat (j - i))" by simp
  then have "two_to j = 2 ^ nat (j - i) * two_to i" using two_to_add_nat[of i "nat (j - i)"] by simp
  moreover have "(1::rat) \<le> 2 ^ nat (j - i)" by simp
  ultimately show ?thesis using two_to_pos[of i] by (simp add: mult_le_cancel_right1)
qed

lemma round_half_even_of_int: "round_half_even (of_int z) = z"
  by (simp add: round_half_even_def)

lemma nearest_double_exact:
  assumes "a \<noteq> 0" "b \<noteq> 0"
    and "of_int a / of_int b = of_int k * two_to j" "\<bar>k\<bar> < 2 ^ 53"
  shows "nearest_double a b = of_int a / of_int b"
proof -
  define x where "x = (of_int a / of_int b :: rat)"
  define ulp where "ulp = two_to (binade a b - 52)"
  note S = nearest_double_shape[OF assms(1,2), folded x_def ulp_def]
  have xk: "x = of_int k * two_to j" using assms(3) by (simp add: x_def)
  have "\<bar>x\<bar> = of_int \<bar>k\<bar> * two_to j" using two_to_pos[of j] by (simp add: xk abs_mult)
  also have "\<dots> < 2 ^ 53 * two_to j"
  proof -
    have "(of_int \<bar>k\<bar> :: rat) < of_int (2 ^ 53)" using assms(4) by (simp only: of_int_less_iff)
    then show ?thesis using two_to_pos[of j] by simp
  qed
  finally have "2 ^ 52 * ulp < 2 ^ 53 * two_to j" using S(3) by linarith
  then have "ulp < two_to (j + 1)" by (simp add: two_to_Suc)
  then have lt: "two_to (binade a b - 52) < two_to (j + 1)" by (simp add: ulp_def)
  have "\<not> j + 1 \<le> binade a b - 52"
  proof
    assume "j + 1 \<le> binade a b - 52"
    from two_to_mono[OF this] lt show False by linarith
  qed
  then have le: "binade a b - 52 \<le> j" by simp
  define n where "n = nat (j - (binade a b - 52))"
  have "j = (binade a b - 52) + int n" using le by (simp add: n_def)
  then have "two_to j = 2 ^ n * ulp"
    using two_to_add_nat[of "binade a b - 52" n] by (simp add: ulp_def)
  then have "x / ulp = of_int (k * 2 ^ n)" using S(2) by (simp add: xk)
  then have "round_half_even (x / ulp) = k * 2 ^ n" by (simp only: round_half_even_of_int)
  then have "nearest_double a b = of_int (k * 2 ^ n) * ulp" by (simp add: S(1))
  also have "\<dots> = x" using \<open>two_to j = 2 ^ n * ulp\<close> by (simp add: xk)
  finally show ?thesis unfolding x_def .
qed

lemma nearest_double_whole:
  assumes "a \<noteq> 0" "b \<noteq> 0" "b dvd a" "\<bar>a\<bar> < 2 ^ 53"
  shows "nearest_double a b = of_int (a div b)"
proof -
  from assms(3) obtain q where q: "a = b * q" by (auto simp: dvd_def)
  have x: "(of_int a / of_int b :: rat) = of_int q" using assms(2) by (simp add: q)
  have "\<bar>q\<bar> \<le> \<bar>a\<bar>" using assms(1,2) q
    by (metis abs_mult mult.commute mult_le_cancel_left1 abs_ge_zero abs_zero linorder_not_le zero_less_abs_iff zless_imp_add1_zle add_0 mult_eq_0_iff)
  then have "\<bar>q\<bar> < 2 ^ 53" using assms(4) by linarith
  moreover have "of_int a / of_int b = of_int q * two_to 0" by (simp add: x two_to_def)
  ultimately have "nearest_double a b = of_int a / of_int b"
    using nearest_double_exact[OF assms(1,2)] by blast
  then show ?thesis using assms(2) by (simp add: q)
qed

lemma round_half_even_nearest:
  "\<bar>of_int (round_half_even m) - m\<bar> \<le> \<bar>of_int z - m\<bar>"
proof (cases "z = round_half_even m")
  case True
  then show ?thesis by simp
next
  case False
  then have "1 \<le> \<bar>z - round_half_even m\<bar>" by simp
  then have "(of_int 1 :: rat) \<le> of_int \<bar>z - round_half_even m\<bar>" by (simp only: of_int_le_iff)
  then have "(1::rat) \<le> \<bar>of_int z - of_int (round_half_even m)\<bar>" by simp
  with round_half_even_error[of m] show ?thesis by linarith
qed

lemma two_to_minus: "two_to (- int n) = 1 / 2 ^ n"
proof (cases "n = 0")
  case True
  then show ?thesis by (simp add: two_to_def)
next
  case False
  then have "\<not> 0 \<le> - int n" by simp
  moreover have "nat (- (- int n)) = n" by simp
  ultimately show ?thesis unfolding two_to_def by (simp only: if_False)
qed

lemma nearest_double_nearest:
  assumes "a \<noteq> 0" "b \<noteq> 0" and k: "\<bar>k\<bar> \<le> 2 ^ 53"
  shows "\<bar>nearest_double a b - of_int a / of_int b\<bar> \<le> \<bar>of_int k * two_to j - of_int a / of_int b\<bar>"
proof -
  define x where "x = (of_int a / of_int b :: rat)"
  define ulp where "ulp = two_to (binade a b - 52)"
  note S = nearest_double_shape[OF assms(1,2), folded x_def ulp_def]
  define m where "m = x / ulp"
  have xm: "x = m * ulp" using S(2) by (simp add: m_def)
  have v: "nearest_double a b = of_int (round_half_even m) * ulp" by (simp add: S(1) m_def)
  have near: "\<bar>nearest_double a b - x\<bar> \<le> \<bar>of_int z * ulp - x\<bar>" for z
  proof -
    have "\<bar>nearest_double a b - x\<bar> = \<bar>of_int (round_half_even m) - m\<bar> * ulp"
      using S(2) by (simp add: v xm abs_mult left_diff_distrib[symmetric])
    also have "\<dots> \<le> \<bar>of_int z - m\<bar> * ulp"
      using S(2) round_half_even_nearest[of m z] by (intro mult_right_mono) simp_all
    also have "\<dots> = \<bar>of_int z * ulp - x\<bar>"
      using S(2) by (simp add: xm abs_mult left_diff_distrib[symmetric])
    finally show ?thesis .
  qed
  show ?thesis
  proof (cases "binade a b - 52 \<le> j")
    case True
    define n where "n = nat (j - (binade a b - 52))"
    have "j = (binade a b - 52) + int n" using True by (simp add: n_def)
    then have "two_to j = 2 ^ n * ulp"
      using two_to_add_nat[of "binade a b - 52" n] by (simp add: ulp_def)
    then have e: "of_int k * two_to j = of_int (k * 2 ^ n) * ulp" by simp
    show ?thesis using near[of "k * 2 ^ n"] unfolding e x_def .
  next
    case False
    then have "j + 1 \<le> binade a b - 52" by simp
    from two_to_mono[OF this] have t: "2 * two_to j \<le> ulp" by (simp add: two_to_Suc ulp_def)
    have "(of_int \<bar>k\<bar> :: rat) \<le> of_int (2 ^ 53)" using k by (simp only: of_int_le_iff)
    then have "(of_int \<bar>k\<bar> :: rat) * two_to j \<le> 2 ^ 53 * two_to j"
      using two_to_pos[of j] by (intro mult_right_mono) simp_all
    then have w1: "(of_int \<bar>k\<bar> :: rat) * two_to j \<le> 2 ^ 52 * (2 * two_to j)" by simp
    have "(2::rat) ^ 52 * (2 * two_to j) \<le> 2 ^ 52 * ulp"
      using t by (intro mult_left_mono) simp_all
    with w1 have "(of_int \<bar>k\<bar> :: rat) * two_to j \<le> 2 ^ 52 * ulp" by linarith
    moreover have "\<bar>of_int k * two_to j\<bar> = (of_int \<bar>k\<bar> :: rat) * two_to j"
      using two_to_pos[of j] by (simp add: abs_mult)
    ultimately have w: "\<bar>of_int k * two_to j\<bar> \<le> 2 ^ 52 * ulp" by simp
    have "\<bar>nearest_double a b - x\<bar> \<le> \<bar>x\<bar> - 2 ^ 52 * ulp"
    proof (cases "0 \<le> x")
      case True
      with near[of "2 ^ 52"] S(3) show ?thesis by simp
    next
      case False
      with near[of "- (2 ^ 52)"] S(3) show ?thesis by simp
    qed
    also have "\<dots> \<le> \<bar>x\<bar> - \<bar>of_int k * two_to j\<bar>" using w by simp
    also have "\<dots> \<le> \<bar>of_int k * two_to j - x\<bar>" by linarith
    finally show ?thesis unfolding x_def .
  qed
qed

lemma double_div_nearest:
  assumes "a \<noteq> 0" "b \<noteq> 0"
  shows "\<exists>v k n. double_div a b = Finite v \<and>
           (v = of_int k * 2 ^ n \<or> v = of_int k / 2 ^ n) \<and> \<bar>k\<bar> \<le> 2 ^ 53 \<and>
           \<bar>v - of_int a / of_int b\<bar> \<le> \<bar>of_int a / of_int b\<bar> / 2 ^ 53 \<and>
           (\<forall>k' n'. \<bar>k'\<bar> \<le> 2 ^ 53 \<longrightarrow>
              \<bar>v - of_int a / of_int b\<bar> \<le> \<bar>of_int k' * 2 ^ n' - of_int a / of_int b\<bar> \<and>
              \<bar>v - of_int a / of_int b\<bar> \<le> \<bar>of_int k' / 2 ^ n' - of_int a / of_int b\<bar>)"
proof -
  from nearest_double_significand[OF assms] obtain k where
    k: "nearest_double a b = of_int k * two_to (binade a b - 52)" "\<bar>k\<bar> \<le> 2 ^ 53" by blast
  have "\<exists>n. two_to (binade a b - 52) = 2 ^ n \<or> two_to (binade a b - 52) = 1 / 2 ^ n"
    by (auto simp: two_to_def)
  then obtain n where
    "two_to (binade a b - 52) = 2 ^ n \<or> two_to (binade a b - 52) = 1 / 2 ^ n" by blast
  with k(1) have sh: "nearest_double a b = of_int k * 2 ^ n \<or> nearest_double a b = of_int k / 2 ^ n"
    by auto
  have dd: "double_div a b = Finite (nearest_double a b)"
    using assms by (simp add: double_div_def)
  have nr: "\<forall>k' n'. \<bar>k'\<bar> \<le> 2 ^ 53 \<longrightarrow>
              \<bar>nearest_double a b - of_int a / of_int b\<bar> \<le> \<bar>of_int k' * 2 ^ n' - of_int a / of_int b\<bar> \<and>
              \<bar>nearest_double a b - of_int a / of_int b\<bar> \<le> \<bar>of_int k' / 2 ^ n' - of_int a / of_int b\<bar>"
  proof (intro allI impI conjI)
    fix k' :: int and n' :: nat
    assume h: "\<bar>k'\<bar> \<le> 2 ^ 53"
    from nearest_double_nearest[OF assms h, of "int n'"]
    show "\<bar>nearest_double a b - of_int a / of_int b\<bar> \<le> \<bar>of_int k' * 2 ^ n' - of_int a / of_int b\<bar>"
      by (simp add: two_to_nat)
    from nearest_double_nearest[OF assms h, of "- int n'"]
    show "\<bar>nearest_double a b - of_int a / of_int b\<bar> \<le> \<bar>of_int k' / 2 ^ n' - of_int a / of_int b\<bar>"
      by (simp add: two_to_minus)
  qed
  from dd sh k(2) nearest_double_error[OF assms] nr show ?thesis by blast
qed

lemma double_div_exact:
  assumes "a \<noteq> 0" "b \<noteq> 0" "\<bar>k\<bar> < 2 ^ 53"
    and "of_int a / of_int b = (of_int k * 2 ^ n :: rat) \<or>
         of_int a / of_int b = (of_int k / 2 ^ n :: rat)"
  shows "double_div a b = Finite (of_int a / of_int b)"
proof -
  have "\<exists>j. of_int a / of_int b = of_int k * two_to j"
  proof (cases "of_int a / of_int b = (of_int k * 2 ^ n :: rat)")
    case True
    then have "of_int a / of_int b = of_int k * two_to (int n)" by (simp add: two_to_nat)
    then show ?thesis by blast
  next
    case False
    with assms(4) have e: "of_int a / of_int b = (of_int k / 2 ^ n :: rat)" by blast
    then have "of_int a / of_int b = of_int k * two_to (- int n)" by (simp add: two_to_minus)
    then show ?thesis by blast
  qed
  then obtain j where "of_int a / of_int b = of_int k * two_to j" by blast
  from nearest_double_exact[OF assms(1,2) this assms(3)] assms(1,2) show ?thesis
    by (simp add: double_div_def)
qed

lemma double_div_whole:
  assumes "b \<noteq> 0" "b dvd a" "\<bar>a\<bar> < 2 ^ 53" "0 < b \<or> a \<noteq> 0"
  shows "double_div a b = Finite (of_int (a div b))"
proof (cases "a = 0")
  case True
  then show ?thesis using assms by (simp add: double_div_def)
next
  case False
  from nearest_double_whole[OF False assms(1,2,3)] False assms(1) show ?thesis
    by (simp add: double_div_def)
qed

lemma nearest_double_6_9: "nearest_double 6 9 = 6004799503160661 / 9007199254740992"
  by code_simp

section \<open>One pass through the loop body\<close>

lemma count_failure_Inr:
  "count_failure b c = Inr c' \<Longrightarrow>
     unchanged_config c c' \<and> transactions c' = transactions c \<and>
     failures c' = failures c + (if b then 1 else 0)"
  by (auto simp: count_failure_def and_then_Inr c_add_Inr unchanged_config_def split: if_splits)

lemma count_transaction_Inr:
  "count_transaction c = Inr c' \<Longrightarrow>
     unchanged_config c c' \<and> transactions c' = transactions c + 1 \<and> failures c' = failures c"
  by (auto simp: count_transaction_def and_then_Inr c_add_Inr unchanged_config_def)

lemma loop_body_Inr:
  assumes "loop_body env k st = Inr st'"
  shows "\<exists>s. calls st' = calls st @ [PQexec s (pq_exec_status env k s), PQclear,
                                      Gettimeofday (clock env k)]
     \<and> (s = Select_All \<or>
        (\<exists>key. s = Update_Where key \<and>
           c_rem (fst (rand_r env (seed st))) (rows (ctx st)) = Inr key))
     \<and> (is_update s \<longleftrightarrow> c_rem (loop_i st) (cycle (ctx st)) = Inr 0)
     \<and> unchanged_config (ctx st) (ctx st')
     \<and> loop_i st' = loop_i st + 1
     \<and> transactions (ctx st') = transactions (ctx st) + 1
     \<and> failures (ctx st') =
         failures (ctx st) + (if pq_exec_status env k s = expected_status s then 0 else 1)"
proof -
  from assms obtain i' r where i': "c_add (loop_i st) 1 = Inr i'"
    and r: "c_rem (loop_i st) (cycle (ctx st)) = Inr r"
    and rest: "(if r = 0 then
         (case rand_r env (seed st) of (rv, seed') \<Rightarrow>
            and_then (c_rem rv (rows (ctx st))) (\<lambda>key.
              let res = pq_exec_status env k (Update_Where key) in
              and_then (count_failure (res \<noteq> PGRES_COMMAND_OK) (ctx st)) (\<lambda>c1.
              and_then (count_transaction c1) (\<lambda>c2.
                Inr \<lparr>ctx = c2, loop_i = i', seed = seed',
                     calls = calls st @ [PQexec (Update_Where key) res, PQclear,
                                         Gettimeofday (clock env k)]\<rparr>))))
       else
         (let res = pq_exec_status env k Select_All in
          and_then (count_failure (res \<noteq> PGRES_TUPLES_OK) (ctx st)) (\<lambda>c1.
          and_then (count_transaction c1) (\<lambda>c2.
            Inr \<lparr>ctx = c2, loop_i = i', seed = seed st,
                 calls = calls st @ [PQexec Select_All res, PQclear,
                                     Gettimeofday (clock env k)]\<rparr>)))) = Inr st'"
    unfolding loop_body_def and_then_Inr by blast
  have i'_eq: "i' = loop_i st + 1" using i' by (simp add: c_add_Inr)
  show ?thesis
  proof (cases "r = 0")
    case True
    obtain rv seed' where rs: "rand_r env (seed st) = (rv, seed')"
      by (cases "rand_r env (seed st)")
    from rest True rs obtain key c1 c2 where key: "c_rem rv (rows (ctx st)) = Inr key"
      and c1: "count_failure (pq_exec_status env k (Update_Where key) \<noteq> PGRES_COMMAND_OK)
                 (ctx st) = Inr c1"
      and c2: "count_transaction c1 = Inr c2"
      and st': "st' = \<lparr>ctx = c2, loop_i = i', seed = seed',
                     calls = calls st @
                       [PQexec (Update_Where key) (pq_exec_status env k (Update_Where key)),
                        PQclear, Gettimeofday (clock env k)]\<rparr>"
      by (auto simp: and_then_Inr Let_def)
    from count_failure_Inr[OF c1] count_transaction_Inr[OF c2] st' key rs r True i'_eq
    show ?thesis
      by (intro exI[of _ "Update_Where key"])
         (simp add: is_update_def expected_status_def unchanged_config_def)
  next
    case False
    from rest False obtain c1 c2 where
          c1: "count_failure (pq_exec_status env k Select_All \<noteq> PGRES_TUPLES_OK) (ctx st)
                 = Inr c1"
      and c2: "count_transaction c1 = Inr c2"
      and st': "st' = \<lparr>ctx = c2, loop_i = i', seed = seed st,
                     calls = calls st @
                       [PQexec Select_All (pq_exec_status env k Select_All), PQclear,
                        Gettimeofday (clock env k)]\<rparr>"
      by (auto simp: and_then_Inr Let_def)
    from count_failure_Inr[OF c1] count_transaction_Inr[OF c2] st' r False i'_eq
    show ?thesis
      by (intro exI[of _ "Select_All"])
         (simp add: is_update_def expected_status_def unchanged_config_def)
  qed
qed

lemma loop_body_finish_time:
  "loop_body env k st = Inr st' \<Longrightarrow> finish_time (ctx st') = finish_time (ctx st)"
  by (drule loop_body_Inr) (auto simp: unchanged_config_def)

lemma loop_body_no_fault:
  assumes "1 \<le> cycle (ctx st)" "1 \<le> rows (ctx st)"
    and "INT_MIN \<le> loop_i st + 1" "loop_i st + 1 \<le> INT_MAX"
    and "INT_MIN \<le> transactions (ctx st) + 1" "transactions (ctx st) + 1 \<le> INT_MAX"
    and "INT_MIN \<le> failures (ctx st) + 1" "failures (ctx st) + 1 \<le> INT_MAX"
  shows "\<exists>st'. loop_body env k st = Inr st'"
proof -
  have a: "c_add (loop_i st) 1 = Inr (loop_i st + 1)" using assms by (simp add: c_add_def)
  have r: "\<exists>r. c_rem (loop_i st) (cycle (ctx st)) = Inr r" using assms by (simp add: c_rem_def)
  have k: "\<And>rv. \<exists>key. c_rem rv (rows (ctx st)) = Inr key" using assms by (simp add: c_rem_def)
  have cf: "\<And>b. \<exists>c1. count_failure b (ctx st) = Inr c1 \<and> transactions c1 = transactions (ctx st)"
    using assms by (simp add: count_failure_def c_add_def)
  have ct: "\<And>c1. transactions c1 = transactions (ctx st) \<Longrightarrow> \<exists>c2. count_transaction c1 = Inr c2"
    using assms by (simp add: count_transaction_def c_add_def)
  from r obtain r where r': "c_rem (loop_i st) (cycle (ctx st)) = Inr r" by blast
  show ?thesis
  proof (cases "r = 0")
    case True
    obtain rv sd where rs: "rand_r env (seed st) = (rv, sd)" by (cases "rand_r env (seed st)")
    from k obtain key where key: "c_rem rv (rows (ctx st)) = Inr key" by blast
    from cf obtain c1 where c1: "count_failure (pq_exec_status env k (Update_Where key) \<noteq> PGRES_COMMAND_OK) (ctx st) = Inr c1" "transactions c1 = transactions (ctx st)" by blast
    from ct[OF c1(2)] obtain c2 where c2: "count_transaction c1 = Inr c2" by blast
    show ?thesis by (simp add: loop_body_def a r' True rs key c1 c2 Let_def)
  next
    case False
    from cf obtain c1 where c1: "count_failure (pq_exec_status env k Select_All \<noteq> PGRES_TUPLES_OK) (ctx st) = Inr c1" "transactions c1 = transactions (ctx st)" by blast
    from ct[OF c1(2)] obtain c2 where c2: "count_transaction c1 = Inr c2" by blast
    show ?thesis by (simp add: loop_body_def a r' False c1 c2 Let_def)
  qed
qed

section \<open>The loop is the body iterated up to the first check that succeeds\<close>

lemma worker_loop_exit:
  "first_reached env (finish_time (ctx st)) k n \<Longrightarrow>
   worker_loop env k st = Some (iterate_body env k (Suc n) st)"
proof (induction n arbitrary: k st)
  case 0
  then have r: "deadline_reached (clock env k) (finish_time (ctx st))"
    by (simp add: first_reached_def)
  show ?case
  proof (cases "loop_body env k st")
    case (Inl e)
    then show ?thesis by (subst worker_loop.simps) simp
  next
    case (Inr st')
    with r loop_body_finish_time[OF Inr] show ?thesis
      by (subst worker_loop.simps) simp
  qed
next
  case (Suc n)
  then have nr: "\<not> deadline_reached (clock env k) (finish_time (ctx st))"
    by (auto simp: first_reached_def)
  show ?case
  proof (cases "loop_body env k st")
    case (Inl e)
    then show ?thesis by (subst worker_loop.simps) simp
  next
    case (Inr st')
    have ft: "finish_time (ctx st') = finish_time (ctx st)"
      by (rule loop_body_finish_time[OF Inr])
    have "first_reached env (finish_time (ctx st')) (Suc k) n"
      using Suc.prems unfolding first_reached_def ft
      by (metis add_Suc_right add_Suc_shift Suc_less_eq)
    from Suc.IH[OF this] nr Inr ft show ?thesis
      by (subst worker_loop.simps) simp
  qed
qed

lemma worker_loop_Some:
  "worker_loop env k st = Some r \<Longrightarrow>
   \<exists>n. r = iterate_body env k (Suc n) st \<and>
       (\<forall>j<n. \<not> deadline_reached (clock env (k + j)) (finish_time (ctx st))) \<and>
       (\<forall>st'. r = Inr st' \<longrightarrow> deadline_reached (clock env (k + n)) (finish_time (ctx st)))"
proof (induction rule: worker_loop.raw_induct[rotated 1, consumes 1])
  case (1 loop env k st r)
  show ?case
  proof (cases "loop_body env k st")
    case (Inl e)
    with 1(2) have "r = Inl e" by simp
    with Inl show ?thesis by (intro exI[of _ 0]) simp
  next
    case (Inr st')
    have ft: "finish_time (ctx st') = finish_time (ctx st)"
      by (rule loop_body_finish_time[OF Inr])
    show ?thesis
    proof (cases "deadline_reached (clock env k) (finish_time (ctx st))")
      case True
      with 1(2) Inr ft have "r = Inr st'" by simp
      with Inr True show ?thesis by (intro exI[of _ 0]) simp
    next
      case False
      with 1(2) Inr ft have "loop env (Suc k) st' = Some r" by simp
      from 1(1)[OF this] obtain n where n: "r = iterate_body env (Suc k) (Suc n) st'"
        "\<forall>j<n. \<not> deadline_reached (clock env (Suc k + j)) (finish_time (ctx st))"
        "\<forall>s. r = Inr s \<longrightarrow> deadline_reached (clock env (Suc k + n)) (finish_time (ctx st))"
        unfolding ft by blast
      have "\<forall>j<Suc n. \<not> deadline_reached (clock env (k + j)) (finish_time (ctx st))"
      proof (intro allI impI)
        fix j assume "j < Suc n"
        then show "\<not> deadline_reached (clock env (k + j)) (finish_time (ctx st))"
          using False n(2) by (cases j) auto
      qed
      with n Inr show ?thesis by (intro exI[of _ "Suc n"]) simp
    qed
  qed
qed

section \<open>Any number of passes\<close>

lemma loop_statements_append:
  "loop_statements (xs @ ys) = loop_statements xs @ loop_statements ys"
  by (induction xs rule: loop_statements.induct) simp_all

lemma loop_statements_pass:
  "s = Select_All \<or> (\<exists>key. s = Update_Where key) \<Longrightarrow>
   loop_statements (cs @ [PQexec s r, PQclear, Gettimeofday t]) = loop_statements cs @ [(s, r)]"
  by (auto simp: loop_statements_append)

lemma unchanged_config_refl: "unchanged_config c c"
  by (simp add: unchanged_config_def)

lemma unchanged_config_trans:
  "unchanged_config a b \<Longrightarrow> unchanged_config b c \<Longrightarrow> unchanged_config a c"
  by (simp add: unchanged_config_def)

lemma iterate_body_Inr:
  "iterate_body env k n st = Inr st' \<Longrightarrow>
   unchanged_config (ctx st) (ctx st') \<and>
   loop_i st' = loop_i st + int n \<and>
   transactions (ctx st') = transactions (ctx st) + int n \<and>
   (\<exists>ss. length ss = n \<and>
      loop_statements (calls st') = loop_statements (calls st) @ ss \<and>
      (\<forall>j<n. pass_statement env (ctx st) (loop_i st + int j) (k + j) (ss ! j)) \<and>
      failures (ctx st') = failures (ctx st) + int (length (filter failed ss)))"
proof (induction n arbitrary: k st)
  case 0
  then show ?case by (simp add: unchanged_config_refl)
next
  case (Suc n)
  from Suc.prems obtain st1 where b: "loop_body env k st = Inr st1"
    and it: "iterate_body env (Suc k) n st1 = Inr st'"
    by (auto simp: and_then_Inr)
  from loop_body_Inr[OF b] obtain s where s:
    "calls st1 = calls st @ [PQexec s (pq_exec_status env k s), PQclear, Gettimeofday (clock env k)]"
    "s = Select_All \<or> (\<exists>key. s = Update_Where key \<and>
           c_rem (fst (rand_r env (seed st))) (rows (ctx st)) = Inr key)"
    "is_update s \<longleftrightarrow> c_rem (loop_i st) (cycle (ctx st)) = Inr 0"
    "unchanged_config (ctx st) (ctx st1)"
    "loop_i st1 = loop_i st + 1"
    "transactions (ctx st1) = transactions (ctx st) + 1"
    "failures (ctx st1) = failures (ctx st) + (if pq_exec_status env k s = expected_status s then 0 else 1)"
    by blast
  from Suc.IH[OF it] obtain ss where ih:
    "unchanged_config (ctx st1) (ctx st')"
    "loop_i st' = loop_i st1 + int n"
    "transactions (ctx st') = transactions (ctx st1) + int n"
    "length ss = n"
    "loop_statements (calls st') = loop_statements (calls st1) @ ss"
    "\<forall>j<n. pass_statement env (ctx st1) (loop_i st1 + int j) (Suc k + j) (ss ! j)"
    "failures (ctx st') = failures (ctx st1) + int (length (filter failed ss))"
    by blast
  let ?sr = "(s, pq_exec_status env k s)"
  have ls1: "loop_statements (calls st1) = loop_statements (calls st) @ [?sr]"
    unfolding s(1) using s(2) by (intro loop_statements_pass) blast
  have cfg: "cycle (ctx st1) = cycle (ctx st)" "rows (ctx st1) = rows (ctx st)"
    using s(4) by (simp_all add: unchanged_config_def)
  have p0: "pass_statement env (ctx st) (loop_i st) k ?sr"
    using s(2,3) by (auto simp: pass_statement_def)
  have pall: "\<forall>j<Suc n. pass_statement env (ctx st) (loop_i st + int j) (k + j) ((?sr # ss) ! j)"
  proof (intro allI impI)
    fix j assume j: "j < Suc n"
    show "pass_statement env (ctx st) (loop_i st + int j) (k + j) ((?sr # ss) ! j)"
    proof (cases j)
      case 0
      with p0 show ?thesis by simp
    next
      case (Suc j')
      with j have "j' < n" by simp
      with ih(6) have "pass_statement env (ctx st1) (loop_i st1 + int j') (Suc k + j') (ss ! j')"
        by blast
      moreover have "loop_i st1 + int j' = loop_i st + int (Suc j')" "Suc k + j' = k + Suc j'"
        using s(5) by simp_all
      ultimately show ?thesis
        unfolding Suc pass_statement_def cfg by simp
    qed
  qed
  have f: "failures (ctx st') = failures (ctx st) + int (length (filter failed (?sr # ss)))"
    using ih(7) s(7) by (simp add: failed_def)
  have "length (?sr # ss) = Suc n" using ih(4) by simp
  moreover have "loop_statements (calls st') = loop_statements (calls st) @ (?sr # ss)"
    using ih(5) ls1 by simp
  ultimately have "\<exists>ss. length ss = Suc n \<and>
      loop_statements (calls st') = loop_statements (calls st) @ ss \<and>
      (\<forall>j<Suc n. pass_statement env (ctx st) (loop_i st + int j) (k + j) (ss ! j)) \<and>
      failures (ctx st') = failures (ctx st) + int (length (filter failed ss))"
    using pall f by blast
  moreover have "unchanged_config (ctx st) (ctx st')"
    using s(4) ih(1) by (rule unchanged_config_trans)
  moreover have "loop_i st' = loop_i st + int (Suc n)" using ih(2) s(5) by simp
  moreover have "transactions (ctx st') = transactions (ctx st) + int (Suc n)"
    using ih(3) s(6) by simp
  ultimately show ?case by blast
qed

lemma iterate_body_no_fault:
  assumes "1 \<le> cycle (ctx st)" "1 \<le> rows (ctx st)"
    and "INT_MIN \<le> loop_i st + 1" "loop_i st + int n \<le> INT_MAX"
    and "INT_MIN \<le> transactions (ctx st) + 1" "transactions (ctx st) + int n \<le> INT_MAX"
    and "INT_MIN \<le> failures (ctx st) + 1" "failures (ctx st) + int n \<le> INT_MAX"
  shows "\<exists>st'. iterate_body env k n st = Inr st'"
  using assms
proof (induction n arbitrary: k st)
  case 0
  then show ?case by simp
next
  case (Suc n)
  have "\<exists>st1. loop_body env k st = Inr st1"
    using Suc.prems by (intro loop_body_no_fault) simp_all
  then obtain st1 where b: "loop_body env k st = Inr st1" by blast
  from loop_body_Inr[OF b] have s:
    "unchanged_config (ctx st) (ctx st1)"
    "loop_i st1 = loop_i st + 1"
    "transactions (ctx st1) = transactions (ctx st) + 1"
    "failures (ctx st1) \<le> failures (ctx st) + 1" "failures (ctx st) \<le> failures (ctx st1)"
    by (auto split: if_splits)
  have "\<exists>st'. iterate_body env (Suc k) n st1 = Inr st'"
    using Suc.prems s by (intro Suc.IH) (simp_all add: unchanged_config_def)
  with b show ?case by simp
qed

lemma iterate_body_calls_prefix:
  "iterate_body env k n st = Inr st' \<Longrightarrow> \<exists>rest. calls st' = calls st @ rest"
proof (induction n arbitrary: k st)
  case 0
  then show ?case by simp
next
  case (Suc n)
  from Suc.prems obtain st1 where b: "loop_body env k st = Inr st1"
    and it: "iterate_body env (Suc k) n st1 = Inr st'"
    by (auto simp: and_then_Inr)
  from loop_body_Inr[OF b] obtain s where
    "calls st1 = calls st @ [PQexec s (pq_exec_status env k s), PQclear, Gettimeofday (clock env k)]"
    by blast
  moreover from Suc.IH[OF it] obtain rest where "calls st' = calls st1 @ rest" by blast
  ultimately show ?case by simp
qed

lemma first_pass_calls:
  assumes "iterate_body env k (Suc n) st = Inr st'"
  shows "\<exists>s res rest. calls st' = calls st @ PQexec s res # PQclear # Gettimeofday (clock env k) # rest
           \<and> (s = Select_All \<or> is_update s)"
proof -
  from assms obtain st1 where b: "loop_body env k st = Inr st1"
    and it: "iterate_body env (Suc k) n st1 = Inr st'"
    by (auto simp: and_then_Inr)
  from loop_body_Inr[OF b] obtain s where s:
    "calls st1 = calls st @ [PQexec s (pq_exec_status env k s), PQclear, Gettimeofday (clock env k)]"
    "s = Select_All \<or> (\<exists>key. s = Update_Where key \<and>
           c_rem (fst (rand_r env (seed st))) (rows (ctx st)) = Inr key)"
    by blast
  from iterate_body_calls_prefix[OF it] obtain rest where "calls st' = calls st1 @ rest" by blast
  with s(1) have "calls st' = calls st @ PQexec s (pq_exec_status env k s) # PQclear #
                    Gettimeofday (clock env k) # rest" by simp
  moreover from s(2) have "s = Select_All \<or> is_update s" by (auto simp: is_update_def)
  ultimately show ?thesis by blast
qed

section \<open>What a worker returns\<close>

lemma loop_entry_simps [simp]:
  "ctx (loop_entry env c) = c"
  "loop_i (loop_entry env c) = thread_number c"
  "loop_statements (calls (loop_entry env c)) = []"
  by (simp_all add: loop_entry_def isolation_statement_def)

lemma worker_passes_finish_time:
  "worker_passes wenv c n = Inr st \<Longrightarrow> finish_time (ctx st) = finish_time c"
proof -
  assume "worker_passes wenv c n = Inr st"
  then have "iterate_body wenv 0 n (loop_entry wenv c) = Inr st" by (simp add: worker_passes_def)
  from iterate_body_Inr[OF this] have "unchanged_config (ctx (loop_entry wenv c)) (ctx st)"
    by blast
  then show ?thesis by (simp add: unchanged_config_def)
qed

lemma thread_main_run:
  assumes "pq_connect_status env = CONNECTION_OK" "pq_isolation_status env = PGRES_COMMAND_OK"
    and "first_reached env (finish_time c) 0 n"
  shows "thread_main env c =
     (case worker_passes env c (Suc n) of
        Inl e \<Rightarrow> Some (Inl e)
      | Inr st \<Rightarrow> Some (Inr (ctx st, calls st @ [PQfinish])))"
proof -
  have "first_reached env (finish_time (ctx (loop_entry env c))) 0 n"
    using assms(3) by simp
  from worker_loop_exit[OF this] assms(1,2) show ?thesis
    by (simp add: thread_main_def worker_passes_def split: sum.splits)
qed

lemma thread_main_Inr:
  assumes "pq_connect_status env = CONNECTION_OK" "pq_isolation_status env = PGRES_COMMAND_OK"
    and "thread_main env c = Some (Inr (c', cs))"
  shows "\<exists>n st. first_reached env (finish_time c) 0 n \<and> worker_passes env c (Suc n) = Inr st \<and>
           c' = ctx st \<and> cs = calls st @ [PQfinish]"
proof -
  from assms obtain st where wl: "worker_loop env 0 (loop_entry env c) = Some (Inr st)"
    and c': "c' = ctx st" and cs: "cs = calls st @ [PQfinish]"
    by (auto simp: thread_main_def split: option.splits sum.splits)
  from worker_loop_Some[OF wl] obtain n where
    "Inr st = iterate_body env 0 (Suc n) (loop_entry env c)"
    "\<forall>j<n. \<not> deadline_reached (clock env (0 + j)) (finish_time (ctx (loop_entry env c)))"
    "deadline_reached (clock env (0 + n)) (finish_time (ctx (loop_entry env c)))"
    by blast
  then have "first_reached env (finish_time c) 0 n" "worker_passes env c (Suc n) = Inr st"
    by (simp_all add: first_reached_def worker_passes_def)
  with c' cs show ?thesis by blast
qed

lemma thread_main_counters:
  assumes "thread_main env c = Some (Inr (c', cs))"
  shows "unchanged_config c c' \<and> transactions c \<le> transactions c' \<and> failures c \<le> failures c' \<and>
         failures c' - failures c \<le> transactions c' - transactions c"
proof (cases "pq_connect_status env = CONNECTION_OK \<and> pq_isolation_status env = PGRES_COMMAND_OK")
  case False
  with assms have "c' = c" by (auto simp: thread_main_def split: if_splits)
  then show ?thesis by (simp add: unchanged_config_def)
next
  case True
  with thread_main_Inr[OF _ _ assms] obtain n st where
    st: "worker_passes env c (Suc n) = Inr st" "c' = ctx st" by blast
  have it: "iterate_body env 0 (Suc n) (loop_entry env c) = Inr st"
    using st(1) by (simp add: worker_passes_def)
  from iterate_body_Inr[OF it] obtain ss where
    u: "unchanged_config (ctx (loop_entry env c)) (ctx st)"
    and t: "transactions (ctx st) = transactions (ctx (loop_entry env c)) + int (Suc n)"
    and l: "length ss = Suc n"
    and f: "failures (ctx st) = failures (ctx (loop_entry env c)) + int (length (filter failed ss))"
    by blast
  have "length (filter failed ss) \<le> Suc n" using l length_filter_le[of failed ss] by simp
  with u t f st(2) show ?thesis by simp
qed

lemma thread_main_finish_time:
  "thread_main env c = Some (Inr (c', wcalls)) \<Longrightarrow> finish_time c' = finish_time c"
  by (drule thread_main_counters) (simp add: unchanged_config_def)

section \<open>The loops of the driver\<close>

lemma launch_workers_None:
  "launch_workers env cfg fin is ds = (None, ds') \<Longrightarrow>
     thread_contexts ds' = thread_contexts ds @
        map (\<lambda>i. (initial_context cfg fin i (queries_per_update_arg cfg + 1))
                    \<lparr>thread_handle := (if pthread_create_result env i = 0 then Some i else None)\<rparr>) is
     \<and> trace ds' = trace ds @ map (\<lambda>i. Pthread_create i (pthread_create_result env i)) is"
proof (induction "is" arbitrary: ds)
  case Nil
  then show ?case by simp
next
  case (Cons i rest)
  from Cons.prems obtain cyc where cyc: "c_add (queries_per_update_arg cfg) 1 = Inr cyc"
    by (cases "c_add (queries_per_update_arg cfg) 1") simp_all
  then have ceq: "cyc = queries_per_update_arg cfg + 1" by (simp add: c_add_Inr)
  let ?c = "(initial_context cfg fin i cyc)
              \<lparr>thread_handle := (if pthread_create_result env i = 0 then Some i else None)\<rparr>"
  let ?ds = "ds\<lparr>thread_contexts := thread_contexts ds @ [?c],
                trace := trace ds @ [Pthread_create i (pthread_create_result env i)]\<rparr>"
  from Cons.prems cyc have "launch_workers env cfg fin rest ?ds = (None, ds')"
    by (simp add: Let_def split: if_splits)
  from Cons.IH[OF this] show ?case by (simp add: ceq)
qed

lemma launch_workers_all_started:
  assumes "c_add (queries_per_update_arg cfg) 1 = Inr cyc"
    and "\<forall>i\<in>set is. pthread_create_result env i = 0"
  shows "launch_workers env cfg fin is ds =
     (None, ds\<lparr>thread_contexts := thread_contexts ds @
                 map (\<lambda>i. (initial_context cfg fin i cyc)\<lparr>thread_handle := Some i\<rparr>) is,
               trace := trace ds @ map (\<lambda>i. Pthread_create i 0) is\<rparr>)"
  using assms(2)
proof (induction "is" arbitrary: ds)
  case Nil
  then show ?case by simp
next
  case (Cons i rest)
  then show ?case by (simp add: assms(1) Let_def)
qed

lemma launch_workers_negative_return:
  assumes "c_add (queries_per_update_arg cfg) 1 = Inr cyc" "pthread_create_result env i < 0"
  shows "fst (launch_workers env cfg fin (i # rest) ds) = Some (Inr EXIT_FAILURE)"
  using assms by (simp add: Let_def)

lemma launch_workers_ending:
  "launch_workers env cfg fin is ds = (Some e, ds') \<Longrightarrow> e \<noteq> Inr EXIT_SUCCESS"
proof (induction "is" arbitrary: ds)
  case Nil
  then show ?case by simp
next
  case (Cons i rest)
  show ?case
  proof (cases "c_add (queries_per_update_arg cfg) 1")
    case (Inl f)
    with Cons.prems show ?thesis by auto
  next
    case (Inr cyc)
    show ?thesis
    proof (cases "pthread_create_result env i < 0")
      case True
      with Cons.prems Inr show ?thesis by (auto simp: Let_def)
    next
      case False
      with Cons.prems Inr Cons.IH show ?thesis by (auto simp: Let_def)
    qed
  qed
qed

lemma launch_workers_any:
  "launch_workers env cfg fin is ds = (e, ds') \<Longrightarrow>
     (\<exists>added. trace ds' = trace ds @ added \<and> list_all is_thread_call added) \<and>
     (\<forall>c\<in>set (thread_contexts ds'). c \<in> set (thread_contexts ds) \<or> finish_time c = fin)"
proof (induction "is" arbitrary: ds)
  case Nil
  then show ?case by auto
next
  case (Cons i rest)
  show ?case
  proof (cases "c_add (queries_per_update_arg cfg) 1")
    case (Inl f)
    with Cons.prems show ?thesis by auto
  next
    case (Inr cyc)
    let ?c = "(initial_context cfg fin i cyc)
              \<lparr>thread_handle := (if pthread_create_result env i = 0 then Some i else None)\<rparr>"
    let ?ds = "ds\<lparr>thread_contexts := thread_contexts ds @ [?c],
                  trace := trace ds @ [Pthread_create i (pthread_create_result env i)]\<rparr>"
    have fc: "finish_time ?c = fin" by (simp add: initial_context_def)
    show ?thesis
    proof (cases "pthread_create_result env i < 0")
      case True
      with Cons.prems Inr have "ds' = ?ds\<lparr>trace := trace ?ds @ [Perror ''pthread_create'']\<rparr>"
        by (simp add: Let_def)
      then show ?thesis using fc by (auto simp: is_thread_call_def)
    next
      case False
      with Cons.prems Inr have "launch_workers env cfg fin rest ?ds = (e, ds')"
        by (simp add: Let_def)
      from Cons.IH[OF this] obtain added where
        a: "trace ds' = trace ?ds @ added" "list_all is_thread_call added"
        and c: "\<forall>c\<in>set (thread_contexts ds'). c \<in> set (thread_contexts ?ds) \<or> finish_time c = fin"
        by blast
      have "trace ds' = trace ds @ (Pthread_create i (pthread_create_result env i) # added)"
        using a(1) by simp
      moreover have "list_all is_thread_call (Pthread_create i (pthread_create_result env i) # added)"
        using a(2) by (simp add: is_thread_call_def)
      ultimately have "\<exists>added. trace ds' = trace ds @ added \<and> list_all is_thread_call added"
        by blast
      moreover have "\<forall>c\<in>set (thread_contexts ds'). c \<in> set (thread_contexts ds) \<or> finish_time c = fin"
        using c fc by auto
      ultimately show ?thesis by blast
    qed
  qed
qed

lemma join_workers_None:
  "join_workers env i cs ds = Some (None, ds') \<Longrightarrow>
   \<exists>finals. length finals = length cs \<and>
     thread_contexts ds' = thread_contexts ds @ finals \<and>
     trace ds' = trace ds @ map (\<lambda>j. Pthread_join j 0) [i..<i + length cs] \<and>
     (\<forall>j<length cs. \<exists>h wcalls. thread_handle (cs ! j) = Some h \<and>
         thread_main (worker_envs env h) (cs ! j) = Some (Inr (finals ! j, wcalls)))"
proof (induction cs arbitrary: i ds)
  case Nil
  then show ?case by simp
next
  case (Cons c rest)
  from Cons.prems obtain h where h: "thread_handle c = Some h"
    by (cases "thread_handle c") simp_all
  from Cons.prems h have rc: "pthread_join_result env i = 0"
    by (simp add: Let_def split: if_splits)
  let ?ds = "ds\<lparr>trace := trace ds @ [Pthread_join i 0]\<rparr>"
  from Cons.prems h rc obtain c' wcalls where
    tm: "thread_main (worker_envs env h) c = Some (Inr (c', wcalls))"
    and rec: "join_workers env (Suc i) rest (?ds\<lparr>thread_contexts := thread_contexts ?ds @ [c']\<rparr>)
               = Some (None, ds')"
    by (auto simp: Let_def split: option.splits sum.splits prod.splits)
  from Cons.IH[OF rec] obtain finals where f: "length finals = length rest"
    "thread_contexts ds' = thread_contexts ds @ [c'] @ finals"
    "trace ds' = trace ds @ [Pthread_join i 0] @ map (\<lambda>j. Pthread_join j 0) [Suc i..<Suc i + length rest]"
    "\<forall>j<length rest. \<exists>h wcalls. thread_handle (rest ! j) = Some h \<and>
         thread_main (worker_envs env h) (rest ! j) = Some (Inr (finals ! j, wcalls))"
    by auto
  have "\<forall>j<length (c # rest). \<exists>h wcalls. thread_handle ((c # rest) ! j) = Some h \<and>
         thread_main (worker_envs env h) ((c # rest) ! j) = Some (Inr ((c' # finals) ! j, wcalls))"
  proof (intro allI impI)
    fix j assume "j < length (c # rest)"
    then show "\<exists>h wcalls. thread_handle ((c # rest) ! j) = Some h \<and>
         thread_main (worker_envs env h) ((c # rest) ! j) = Some (Inr ((c' # finals) ! j, wcalls))"
      using h tm f(4) by (cases j) auto
  qed
  moreover have "[i..<i + length (c # rest)] = i # [Suc i..<Suc i + length rest]"
    by (simp add: upt_rec)
  ultimately show ?case using f(1,2,3)
    by (intro exI[of _ "c' # finals"]) simp
qed

lemma join_workers_all_joined:
  assumes "\<forall>j<length cs. pthread_join_result env (i + j) = 0"
    and "\<forall>j<length cs. \<exists>wcalls. thread_handle (cs ! j) = Some (i + j) \<and>
           thread_main (worker_envs env (i + j)) (cs ! j) = Some (Inr (finals ! j, wcalls))"
    and "length finals = length cs"
  shows "join_workers env i cs ds =
     Some (None, ds\<lparr>thread_contexts := thread_contexts ds @ finals,
                     trace := trace ds @ map (\<lambda>j. Pthread_join j 0) [i..<i + length cs]\<rparr>)"
  using assms
proof (induction cs arbitrary: i ds finals)
  case Nil
  then show ?case by simp
next
  case (Cons c rest)
  from Cons.prems(3) obtain c' finals' where fin: "finals = c' # finals'" "length finals' = length rest"
    by (cases finals) auto
  from Cons.prems(1) have rc: "pthread_join_result env i = 0" by force
  from Cons.prems(2) fin obtain wcalls where h: "thread_handle c = Some i"
    and tm: "thread_main (worker_envs env i) c = Some (Inr (c', wcalls))"
    by force
  have r1: "\<forall>j<length rest. pthread_join_result env (Suc i + j) = 0"
    using Cons.prems(1) by force
  have r2: "\<forall>j<length rest. \<exists>wcalls. thread_handle (rest ! j) = Some (Suc i + j) \<and>
           thread_main (worker_envs env (Suc i + j)) (rest ! j) = Some (Inr (finals' ! j, wcalls))"
  proof (intro allI impI)
    fix j assume "j < length rest"
    then have "Suc j < length (c # rest)" by simp
    from Cons.prems(2)[rule_format, OF this] show "\<exists>wcalls. thread_handle (rest ! j) = Some (Suc i + j) \<and>
           thread_main (worker_envs env (Suc i + j)) (rest ! j) = Some (Inr (finals' ! j, wcalls))"
      by (simp add: fin)
  qed
  have u: "[i..<i + length (c # rest)] = i # [Suc i..<Suc i + length rest]"
    by (simp add: upt_rec)
  show ?case
    unfolding u fin
    by (simp add: h rc tm Let_def Cons.IH[OF r1 r2 fin(2)])
qed

lemma join_workers_ending:
  "join_workers env i cs ds = Some (Some e, ds') \<Longrightarrow> e \<noteq> Inr EXIT_SUCCESS"
proof (induction cs arbitrary: i ds)
  case Nil
  then show ?case by simp
next
  case (Cons c rest)
  show ?case
  proof (cases "thread_handle c")
    case None
    with Cons.prems show ?thesis by auto
  next
    case (Some h)
    consider "pthread_join_result env i < 0" | "pthread_join_result env i > 0"
      | "pthread_join_result env i = 0" by linarith
    then show ?thesis
    proof cases
      case 1
      with Cons.prems Some show ?thesis by (auto simp: Let_def)
    next
      case 2
      with Cons.prems Some show ?thesis by (auto simp: Let_def)
    next
      case 3
      show ?thesis
      proof (cases "thread_main (worker_envs env h) c")
        case None
        with Cons.prems Some 3 show ?thesis by (simp add: Let_def)
      next
        case (Some res)
        note tm = this
        show ?thesis
        proof (cases res)
          case (Inl f)
          with Cons.prems \<open>thread_handle c = Some h\<close> 3 tm show ?thesis by (auto simp: Let_def)
        next
          case (Inr p)
          obtain c' wcalls where p: "p = (c', wcalls)" by (cases p)
          with Cons.prems \<open>thread_handle c = Some h\<close> 3 tm Inr
          have "join_workers env (Suc i) rest
                  (ds\<lparr>trace := trace ds @ [Pthread_join i 0],
                      thread_contexts := thread_contexts ds @ [c']\<rparr>) = Some (Some e, ds')"
            by (simp add: Let_def)
          from Cons.IH[OF this] show ?thesis .
        qed
      qed
    qed
  qed
qed

lemma join_workers_any:
  "join_workers env i cs ds = Some (e, ds') \<Longrightarrow>
     (\<exists>added. trace ds' = trace ds @ added \<and> list_all is_thread_call added) \<and>
     (\<forall>c'\<in>set (thread_contexts ds'). c' \<in> set (thread_contexts ds) \<or>
          (\<exists>c\<in>set cs. finish_time c' = finish_time c))"
proof (induction cs arbitrary: i ds)
  case Nil
  then show ?case by auto
next
  case (Cons c rest)
  show ?case
  proof (cases "thread_handle c")
    case None
    with Cons.prems show ?thesis by auto
  next
    case (Some h)
    let ?ds = "ds\<lparr>trace := trace ds @ [Pthread_join i (pthread_join_result env i)]\<rparr>"
    consider "pthread_join_result env i < 0" | "pthread_join_result env i > 0"
      | "pthread_join_result env i = 0" by linarith
    then show ?thesis
    proof cases
      case 1
      with Cons.prems Some have "ds' = ?ds\<lparr>trace := trace ?ds @ [Perror ''pthread_join'']\<rparr>"
        by (simp add: Let_def)
      then show ?thesis by (auto simp: is_thread_call_def)
    next
      case 2
      with Cons.prems Some have "ds' = ?ds" by (simp add: Let_def)
      then show ?thesis by (auto simp: is_thread_call_def)
    next
      case 3
      show ?thesis
      proof (cases "thread_main (worker_envs env h) c")
        case None
        with Cons.prems Some 3 show ?thesis by (simp add: Let_def)
      next
        case (Some res)
        note tm = this
        show ?thesis
        proof (cases res)
          case (Inl f)
          with Cons.prems \<open>thread_handle c = Some h\<close> 3 tm have "ds' = ?ds"
            by (simp add: Let_def)
          then show ?thesis by (auto simp: is_thread_call_def)
        next
          case (Inr p)
          obtain c' wcalls where p: "p = (c', wcalls)" by (cases p)
          let ?ds1 = "?ds\<lparr>thread_contexts := thread_contexts ?ds @ [c']\<rparr>"
          from Cons.prems \<open>thread_handle c = Some h\<close> 3 tm Inr p
          have "join_workers env (Suc i) rest ?ds1 = Some (e, ds')"
            by (simp add: Let_def)
          from Cons.IH[OF this] obtain added where
            a: "trace ds' = trace ?ds1 @ added" "list_all is_thread_call added"
            and cc: "\<forall>c'\<in>set (thread_contexts ds'). c' \<in> set (thread_contexts ?ds1) \<or>
                      (\<exists>c\<in>set rest. finish_time c' = finish_time c)"
            by blast
          have ft: "finish_time c' = finish_time c"
            using tm Inr p by (intro thread_main_finish_time[of "worker_envs env h" c c' wcalls]) simp
          have "trace ds' = trace ds @ (Pthread_join i (pthread_join_result env i) # added)"
            using a(1) by simp
          moreover have "list_all is_thread_call (Pthread_join i (pthread_join_result env i) # added)"
            using a(2) by (simp add: is_thread_call_def)
          ultimately have "\<exists>added. trace ds' = trace ds @ added \<and> list_all is_thread_call added"
            by blast
          moreover have "\<forall>c'\<in>set (thread_contexts ds'). c' \<in> set (thread_contexts ds) \<or>
                      (\<exists>c\<in>set (c # rest). finish_time c' = finish_time c)"
            using cc ft by auto
          ultimately show ?thesis by blast
        qed
      qed
    qed
  qed
qed

lemma count_up_Inr:
  "count_up cs (a, b) = Inr (x, y) \<Longrightarrow>
     x = a + sum_list (map transactions cs) \<and> y = b + sum_list (map failures cs)"
proof (induction cs arbitrary: a b)
  case Nil
  then show ?case by simp
next
  case (Cons c rest)
  from Cons.prems obtain tt tf where "c_add a (transactions c) = Inr tt"
    "c_add b (failures c) = Inr tf" "count_up rest (tt, tf) = Inr (x, y)"
    by (auto simp: and_then_Inr)
  with Cons.IH[of tt tf] show ?case by (simp add: c_add_Inr)
qed

lemma count_up_sums:
  assumes "\<forall>c\<in>set cs. 0 \<le> failures c \<and> failures c \<le> transactions c"
    and "0 \<le> b" "b \<le> a" "a + sum_list (map transactions cs) \<le> INT_MAX"
  shows "count_up cs (a, b) =
     Inr (a + sum_list (map transactions cs), b + sum_list (map failures cs))"
  using assms
proof (induction cs arbitrary: a b)
  case Nil
  then show ?case by simp
next
  case (Cons c rest)
  have nn: "0 \<le> sum_list (map transactions rest)"
    using Cons.prems(1) by (intro sum_list_nonneg) auto
  have c: "0 \<le> failures c" "failures c \<le> transactions c" using Cons.prems(1) by simp_all
  have a1: "c_add a (transactions c) = Inr (a + transactions c)"
    using Cons.prems c nn by (simp add: c_add_def INT_MIN_def)
  have b1: "c_add b (failures c) = Inr (b + failures c)"
    using Cons.prems c nn by (simp add: c_add_def INT_MIN_def)
  have "count_up rest (a + transactions c, b + failures c) =
     Inr (a + transactions c + sum_list (map transactions rest),
          b + failures c + sum_list (map failures rest))"
    using Cons.prems c by (intro Cons.IH) simp_all
  then show ?case by (simp add: a1 b1 add.assoc)
qed

section \<open>A run of the driver\<close>

lemma main_scanned:
  "scan_args (atoi env) argv defaults = Some cfg \<Longrightarrow> main env argv = run_benchmark env cfg"
  by (simp add: main_def)

lemma run_benchmark_after_setup:
  assumes "setup_ok env"
  shows "run_benchmark env cfg =
     (case launch_workers env cfg (deadline env cfg) [0..<nat (threads cfg)]
             \<lparr>thread_contexts = [], trace = setup_calls env cfg\<rparr> of
        (Some e, ds4) \<Rightarrow> finish e ds4 []
      | (None, ds4) \<Rightarrow>
          (case join_workers env 0 (thread_contexts ds4) (ds4\<lparr>thread_contexts := []\<rparr>) of
             None \<Rightarrow> None
           | Some (Some e, ds5) \<Rightarrow> finish e ds5 []
           | Some (None, ds5) \<Rightarrow>
               (case count_up (thread_contexts ds5) (0, 0) of
                  Inl e \<Rightarrow> finish (Inl e) ds5 []
                | Inr (total_transactions, total_failures) \<Rightarrow>
                    finish (Inr EXIT_SUCCESS) ds5
                      [Printf \<lparr>tps = double_div total_transactions (seconds cfg),
                               failures_printed = total_failures\<rparr>])))"
  using assms
  by (simp add: run_benchmark_def setup_ok_def Let_def setup_calls_def deadline_def)

lemma run_benchmark_setup_failed:
  assumes "\<not> setup_ok env" "run_benchmark env cfg = Some r"
  shows "ending_of r = Inr EXIT_FAILURE \<and> contexts_of r = [] \<and>
         \<not> list_ex is_printf (trace_of r) \<and> \<not> list_ex is_pthread_create (trace_of r)"
proof -
  consider "setup_connect_status env \<noteq> CONNECTION_OK"
    | "setup_connect_status env = CONNECTION_OK" "drop_status env \<noteq> PGRES_COMMAND_OK"
    | "setup_connect_status env = CONNECTION_OK" "drop_status env = PGRES_COMMAND_OK"
      "create_status env \<noteq> PGRES_COMMAND_OK"
    | "setup_connect_status env = CONNECTION_OK" "drop_status env = PGRES_COMMAND_OK"
      "create_status env = PGRES_COMMAND_OK" "\<not> malloc_succeeds env"
    using assms(1) unfolding setup_ok_def by blast
  then show ?thesis
  proof cases
    case 1
    with assms(2) show ?thesis
      by (auto simp: run_benchmark_def finish_def Let_def is_printf_def is_pthread_create_def)
  next
    case 2
    with assms(2) show ?thesis
      by (auto simp: run_benchmark_def finish_def Let_def is_printf_def is_pthread_create_def)
  next
    case 3
    with assms(2) show ?thesis
      by (auto simp: run_benchmark_def finish_def Let_def is_printf_def is_pthread_create_def)
  next
    case 4
    with assms(2) show ?thesis
      by (auto simp: run_benchmark_def finish_def Let_def is_printf_def is_pthread_create_def)
  qed
qed

lemma run_benchmark_setup_failed_trace:
  assumes "\<not> setup_ok env" "run_benchmark env cfg = Some r"
  shows "\<exists>rest. trace_of r = Main_gettimeofday (now_main env) # rest \<and>
           \<not> list_ex is_main_gettimeofday rest \<and> \<not> list_ex is_printf rest"
proof -
  consider "setup_connect_status env \<noteq> CONNECTION_OK"
    | "setup_connect_status env = CONNECTION_OK" "drop_status env \<noteq> PGRES_COMMAND_OK"
    | "setup_connect_status env = CONNECTION_OK" "drop_status env = PGRES_COMMAND_OK"
      "create_status env \<noteq> PGRES_COMMAND_OK"
    | "setup_connect_status env = CONNECTION_OK" "drop_status env = PGRES_COMMAND_OK"
      "create_status env = PGRES_COMMAND_OK" "\<not> malloc_succeeds env"
    using assms(1) unfolding setup_ok_def by blast
  then show ?thesis
  proof cases
    case 1
    with assms(2) show ?thesis
      by (auto simp: run_benchmark_def finish_def Let_def is_printf_def is_main_gettimeofday_def)
  next
    case 2
    with assms(2) show ?thesis
      by (auto simp: run_benchmark_def finish_def Let_def is_printf_def is_main_gettimeofday_def)
  next
    case 3
    with assms(2) show ?thesis
      by (auto simp: run_benchmark_def finish_def Let_def is_printf_def is_main_gettimeofday_def)
  next
    case 4
    with assms(2) show ?thesis
      by (auto simp: run_benchmark_def finish_def Let_def is_printf_def is_main_gettimeofday_def)
  qed
qed

lemma run_benchmark_success:
  assumes "run_benchmark env cfg = Some r" "ending_of r = Inr EXIT_SUCCESS"
  shows "setup_ok env \<and> length (contexts_of r) = nat (threads cfg) \<and>
     (\<forall>i<nat (threads cfg). pthread_create_result env i = 0 \<and> (\<exists>wcalls.
         thread_main (worker_envs env i) (launched_context env cfg i) =
           Some (Inr (contexts_of r ! i, wcalls)))) \<and>
     trace_of r = setup_calls env cfg @ map (\<lambda>i. Pthread_create i 0) [0..<nat (threads cfg)] @
        map (\<lambda>i. Pthread_join i 0) [0..<nat (threads cfg)] @
        [Printf (printed_report env cfg (contexts_of r))]"
proof -
  define n where "n = nat (threads cfg)"
  define ds3 where "ds3 = \<lparr>thread_contexts = [], trace = setup_calls env cfg\<rparr>"
  have ok: "setup_ok env"
    using run_benchmark_setup_failed[OF _ assms(1)] assms(2) by auto
  note rb = run_benchmark_after_setup[OF ok, of cfg, folded n_def ds3_def]
  obtain e4 ds4 where l: "launch_workers env cfg (deadline env cfg) [0..<n] ds3 = (e4, ds4)"
    by (cases "launch_workers env cfg (deadline env cfg) [0..<n] ds3")
  have e4: "e4 = None"
  proof (cases e4)
    case (Some e)
    with l assms rb launch_workers_ending[of env cfg "deadline env cfg" "[0..<n]" ds3 e ds4]
    show ?thesis by (auto simp: finish_def)
  qed simp
  let ?mk = "\<lambda>i. (initial_context cfg (deadline env cfg) i (queries_per_update_arg cfg + 1))
                    \<lparr>thread_handle := (if pthread_create_result env i = 0 then Some i else None)\<rparr>"
  from launch_workers_None[OF l[unfolded e4]]
  have c4: "thread_contexts ds4 = map ?mk [0..<n]"
    and t4: "trace ds4 = setup_calls env cfg @
               map (\<lambda>i. Pthread_create i (pthread_create_result env i)) [0..<n]"
    by (simp_all add: ds3_def)
  from rb l e4 assms(1) obtain e5 ds5 where
    j: "join_workers env 0 (thread_contexts ds4) (ds4\<lparr>thread_contexts := []\<rparr>) = Some (e5, ds5)"
    by (cases "join_workers env 0 (thread_contexts ds4) (ds4\<lparr>thread_contexts := []\<rparr>)") auto
  have e5: "e5 = None"
  proof (cases e5)
    case (Some e)
    with j l e4 assms rb
      join_workers_ending[of env 0 "thread_contexts ds4" "ds4\<lparr>thread_contexts := []\<rparr>" e ds5]
    show ?thesis by (auto simp: finish_def)
  qed simp
  from join_workers_None[OF j[unfolded e5]] obtain finals where
    fl: "length finals = n"
    and c5: "thread_contexts ds5 = finals"
    and t5: "trace ds5 = trace ds4 @ map (\<lambda>j. Pthread_join j 0) [0..<n]"
    and tm: "\<forall>j<n. \<exists>h wcalls. thread_handle (thread_contexts ds4 ! j) = Some h \<and>
         thread_main (worker_envs env h) (thread_contexts ds4 ! j) = Some (Inr (finals ! j, wcalls))"
    by (auto simp: c4)
  have each: "\<forall>i<n. pthread_create_result env i = 0 \<and> (\<exists>wcalls.
         thread_main (worker_envs env i) (launched_context env cfg i) =
           Some (Inr (finals ! i, wcalls)))"
  proof (intro allI impI)
    fix i assume i: "i < n"
    with tm obtain h wcalls where h: "thread_handle (thread_contexts ds4 ! i) = Some h"
      and m: "thread_main (worker_envs env h) (thread_contexts ds4 ! i) = Some (Inr (finals ! i, wcalls))"
      by blast
    have ci: "thread_contexts ds4 ! i = ?mk i" using i by (simp add: c4)
    from h ci have rc: "pthread_create_result env i = 0" and hi: "h = i"
      by (auto split: if_splits)
    have "?mk i = launched_context env cfg i" using rc by (simp add: launched_context_def)
    with m ci hi rc show "pthread_create_result env i = 0 \<and> (\<exists>wcalls.
         thread_main (worker_envs env i) (launched_context env cfg i) =
           Some (Inr (finals ! i, wcalls)))" by auto
  qed
  then have rcs: "map (\<lambda>i. Pthread_create i (pthread_create_result env i)) [0..<n] =
                  map (\<lambda>i. Pthread_create i 0) [0..<n]" by simp
  from rb l e4 j e5 assms obtain tt tf where cu: "count_up finals (0, 0) = Inr (tt, tf)"
    and r: "r = \<lparr>ending_of = Inr EXIT_SUCCESS, contexts_of = finals,
                trace_of = trace ds5 @ [Printf \<lparr>tps = double_div tt (seconds cfg),
                               failures_printed = tf\<rparr>]\<rparr>"
    by (cases "count_up finals (0, 0)") (auto simp: finish_def c5)
  from count_up_Inr[OF cu] have "tt = sum_list (map transactions finals)"
    "tf = sum_list (map failures finals)" by simp_all
  with r t5 t4 rcs have tr: "trace_of r = setup_calls env cfg @ map (\<lambda>i. Pthread_create i 0) [0..<n] @
        map (\<lambda>i. Pthread_join i 0) [0..<n] @ [Printf (printed_report env cfg (contexts_of r))]"
    by (simp add: printed_report_def)
  from r have "contexts_of r = finals" by simp
  with ok fl each tr show ?thesis unfolding n_def by simp
qed

lemma run_benchmark_completes:
  assumes "setup_ok env"
    and "INT_MIN \<le> queries_per_update_arg cfg + 1" "queries_per_update_arg cfg + 1 \<le> INT_MAX"
    and "\<forall>i<nat (threads cfg). pthread_create_result env i = 0"
    and "\<forall>i<nat (threads cfg). pthread_join_result env i = 0"
    and "length finals = nat (threads cfg)"
    and "\<forall>i<nat (threads cfg). \<exists>wcalls.
           thread_main (worker_envs env i) (launched_context env cfg i) =
             Some (Inr (finals ! i, wcalls))"
    and "sum_list (map transactions finals) \<le> INT_MAX"
  shows "run_benchmark env cfg =
     Some \<lparr>ending_of = Inr EXIT_SUCCESS, contexts_of = finals,
           trace_of = setup_calls env cfg @ map (\<lambda>i. Pthread_create i 0) [0..<nat (threads cfg)] @
             map (\<lambda>i. Pthread_join i 0) [0..<nat (threads cfg)] @
             [Printf (printed_report env cfg finals)]\<rparr>"
proof -
  define n where "n = nat (threads cfg)"
  define ds3 where "ds3 = \<lparr>thread_contexts = [], trace = setup_calls env cfg\<rparr>"
  note rb = run_benchmark_after_setup[OF assms(1), of cfg, folded n_def ds3_def]
  have cyc: "c_add (queries_per_update_arg cfg) 1 = Inr (queries_per_update_arg cfg + 1)"
    using assms(2,3) by (simp add: c_add_def)
  have "\<forall>i\<in>set [0..<n]. pthread_create_result env i = 0" using assms(4) by (simp add: n_def)
  from launch_workers_all_started[OF cyc this, of "deadline env cfg" ds3]
  have l: "launch_workers env cfg (deadline env cfg) [0..<n] ds3 =
     (None, \<lparr>thread_contexts = map (launched_context env cfg) [0..<n],
             trace = setup_calls env cfg @ map (\<lambda>i. Pthread_create i 0) [0..<n]\<rparr>)"
    by (simp add: ds3_def launched_context_def)
  have j: "join_workers env 0 (map (launched_context env cfg) [0..<n])
             \<lparr>thread_contexts = [], trace = setup_calls env cfg @ map (\<lambda>i. Pthread_create i 0) [0..<n]\<rparr> =
     Some (None, \<lparr>thread_contexts = finals,
                  trace = setup_calls env cfg @ map (\<lambda>i. Pthread_create i 0) [0..<n] @
                          map (\<lambda>j. Pthread_join j 0) [0..<n]\<rparr>)"
    using assms(5,6,7)
    by (subst join_workers_all_joined[where finals = finals])
       (simp_all add: n_def launched_context_def)
  have nn: "\<forall>c\<in>set finals. 0 \<le> failures c \<and> failures c \<le> transactions c"
  proof
    fix c assume "c \<in> set finals"
    then obtain i where i: "i < n" "c = finals ! i"
      using assms(6) by (auto simp: in_set_conv_nth n_def)
    with assms(7) obtain wcalls where
      "thread_main (worker_envs env i) (launched_context env cfg i) = Some (Inr (c, wcalls))"
      by (auto simp: n_def)
    from thread_main_counters[OF this] show "0 \<le> failures c \<and> failures c \<le> transactions c"
      by (simp add: launched_context_def initial_context_def)
  qed
  have cu: "count_up finals (0, 0) =
     Inr (sum_list (map transactions finals), sum_list (map failures finals))"
    using count_up_sums[OF nn, of 0 0] assms(8) by simp
  show ?thesis
    unfolding rb l n_def[symmetric]
    by (simp add: j cu finish_def printed_report_def)
qed

lemma thread_call_kinds:
  "is_thread_call x \<Longrightarrow> \<not> is_main_gettimeofday x \<and> \<not> is_printf x"
  by (cases x) (simp_all add: is_thread_call_def is_main_gettimeofday_def is_printf_def)

lemma thread_calls_kinds:
  "list_all is_thread_call xs \<Longrightarrow>
     \<not> list_ex is_main_gettimeofday xs \<and> \<not> list_ex is_printf xs"
  using thread_call_kinds by (auto simp: list_all_iff list_ex_iff)

lemma setup_calls_kinds:
  "setup_calls env cfg = Main_gettimeofday (now_main env) # tl (setup_calls env cfg)"
  "\<not> list_ex is_main_gettimeofday (tl (setup_calls env cfg))"
  "\<not> list_ex is_printf (tl (setup_calls env cfg))"
  by (simp_all add: setup_calls_def is_main_gettimeofday_def is_printf_def)

lemma run_benchmark_any:
  assumes "run_benchmark env cfg = Some r"
  shows "(\<exists>rest. trace_of r = Main_gettimeofday (now_main env) # rest \<and>
            \<not> list_ex is_main_gettimeofday rest \<and>
            (list_ex is_printf rest \<longrightarrow> ending_of r = Inr EXIT_SUCCESS)) \<and>
         (\<forall>c\<in>set (contexts_of r). finish_time c = deadline env cfg)"
proof (cases "setup_ok env")
  case False
  from run_benchmark_setup_failed_trace[OF False assms] run_benchmark_setup_failed[OF False assms]
  show ?thesis by auto
next
  case True
  define n where "n = nat (threads cfg)"
  define ds3 where "ds3 = \<lparr>thread_contexts = [], trace = setup_calls env cfg\<rparr>"
  note rb = run_benchmark_after_setup[OF True, of cfg, folded n_def ds3_def]
  obtain e4 ds4 where l: "launch_workers env cfg (deadline env cfg) [0..<n] ds3 = (e4, ds4)"
    by (cases "launch_workers env cfg (deadline env cfg) [0..<n] ds3")
  from launch_workers_any[OF l] obtain added4 where
    t4: "trace ds4 = setup_calls env cfg @ added4" and a4: "list_all is_thread_call added4"
    and c4: "\<forall>c\<in>set (thread_contexts ds4). finish_time c = deadline env cfg"
    by (auto simp: ds3_def)
  have shape: "\<exists>rest. trace_of r = Main_gettimeofday (now_main env) # rest \<and>
            \<not> list_ex is_main_gettimeofday rest \<and>
            (list_ex is_printf rest \<longrightarrow> ending_of r = Inr EXIT_SUCCESS)"
    if "trace_of r = setup_calls env cfg @ added @ last_calls" "list_all is_thread_call added"
       "\<not> list_ex is_main_gettimeofday last_calls"
       "list_ex is_printf last_calls \<longrightarrow> ending_of r = Inr EXIT_SUCCESS"
    for added last_calls
  proof -
    have "trace_of r = Main_gettimeofday (now_main env) # (tl (setup_calls env cfg) @ added @ last_calls)"
      using that(1) setup_calls_kinds(1)[of env cfg] by (metis append_Cons)
    moreover have "\<not> list_ex is_main_gettimeofday (tl (setup_calls env cfg) @ added @ last_calls)"
      using setup_calls_kinds(2)[of env cfg] thread_calls_kinds[OF that(2)] that(3)
      by (auto simp: list_ex_iff)
    moreover have "list_ex is_printf (tl (setup_calls env cfg) @ added @ last_calls) \<longrightarrow>
                   ending_of r = Inr EXIT_SUCCESS"
      using setup_calls_kinds(3)[of env cfg] thread_calls_kinds[OF that(2)] that(4)
      by (auto simp: list_ex_iff)
    ultimately show ?thesis by blast
  qed
  show ?thesis
  proof (cases e4)
    case (Some e)
    with assms rb l have r: "r = \<lparr>ending_of = e, contexts_of = thread_contexts ds4,
                                 trace_of = trace ds4\<rparr>"
      by (simp add: finish_def)
    have "trace_of r = setup_calls env cfg @ added4 @ []" using r t4 by simp
    from shape[OF this a4] r c4 show ?thesis by simp
  next
    case None
    note e4 = this
    from rb l e4 assms obtain e5 ds5 where
      j: "join_workers env 0 (thread_contexts ds4) (ds4\<lparr>thread_contexts := []\<rparr>) = Some (e5, ds5)"
      by (cases "join_workers env 0 (thread_contexts ds4) (ds4\<lparr>thread_contexts := []\<rparr>)") auto
    from join_workers_any[OF j] obtain added5 where
      t5: "trace ds5 = trace ds4 @ added5" and a5: "list_all is_thread_call added5"
      and c5: "\<forall>c'\<in>set (thread_contexts ds5). \<exists>c\<in>set (thread_contexts ds4). finish_time c' = finish_time c"
      by auto
    have c5': "\<forall>c\<in>set (thread_contexts ds5). finish_time c = deadline env cfg"
      using c5 c4 by auto
    have a45: "list_all is_thread_call (added4 @ added5)" using a4 a5 by simp
    have t45: "trace ds5 = setup_calls env cfg @ (added4 @ added5)" using t4 t5 by simp
    show ?thesis
    proof (cases e5)
      case (Some e)
      with assms rb l e4 j have r: "r = \<lparr>ending_of = e, contexts_of = thread_contexts ds5,
                                 trace_of = trace ds5\<rparr>"
        by (simp add: finish_def)
      have "trace_of r = setup_calls env cfg @ (added4 @ added5) @ []" using r t45 by simp
      from shape[OF this a45] r c5' show ?thesis by simp
    next
      case None
      note e5 = this
      show ?thesis
      proof (cases "count_up (thread_contexts ds5) (0, 0)")
        case (Inl f)
        with assms rb l e4 j e5 have r: "r = \<lparr>ending_of = Inl f, contexts_of = thread_contexts ds5,
                                 trace_of = trace ds5\<rparr>"
          by (simp add: finish_def)
        have "trace_of r = setup_calls env cfg @ (added4 @ added5) @ []" using r t45 by simp
        from shape[OF this a45] r c5' show ?thesis by simp
      next
        case (Inr p)
        obtain tt tf where p: "p = (tt, tf)" by (cases p)
        with Inr assms rb l e4 j e5 have r: "r = \<lparr>ending_of = Inr EXIT_SUCCESS,
               contexts_of = thread_contexts ds5,
               trace_of = trace ds5 @ [Printf \<lparr>tps = double_div tt (seconds cfg),
                               failures_printed = tf\<rparr>]\<rparr>"
          by (simp add: finish_def)
        have "trace_of r = setup_calls env cfg @ (added4 @ added5) @
                  [Printf \<lparr>tps = double_div tt (seconds cfg), failures_printed = tf\<rparr>]"
          using r t45 by simp
        from shape[OF this a45] r c5' show ?thesis by (simp add: is_main_gettimeofday_def)
      qed
    qed
  qed
qed

section \<open>The test of the deadline is the order of instants\<close>

lemma deadline_reached_microseconds:
  assumes "normalised now" and "normalised fin"
  shows "deadline_reached now fin \<longleftrightarrow> microseconds fin \<le> microseconds now"
  using assms unfolding deadline_reached_def microseconds_def normalised_def by arith

lemma first_reached_microseconds:
  assumes "normalised fin" and "\<forall>k. normalised (clock wenv k)"
  shows "first_reached wenv fin 0 n \<longleftrightarrow>
           microseconds fin \<le> microseconds (clock wenv n) \<and>
           (\<forall>j<n. microseconds (clock wenv j) < microseconds fin)"
proof -
  have "\<And>k. deadline_reached (clock wenv k) fin \<longleftrightarrow> microseconds fin \<le> microseconds (clock wenv k)"
    using assms deadline_reached_microseconds by blast
  then show ?thesis unfolding first_reached_def by (simp add: not_le)
qed

section \<open>The example run, computed\<close>

lemma demo_env_fields:
  "pthread_create_result demo_env i = 0" "pthread_join_result demo_env i = 0"
  "worker_envs demo_env = demo_worker" "now_main demo_env = \<lparr>tv_sec = 1000, tv_usec = 500\<rparr>"
  "atoi demo_env = atoi_decimal"
  by (simp_all add: demo_env_def)

lemma demo_context_fields:
  "thread_number (demo_context i) = int i" "queries_per_update (demo_context i) = 1"
  "cycle (demo_context i) = 2" "rows (demo_context i) = 5"
  "transactions (demo_context i) = 0" "failures (demo_context i) = 0"
  "finish_time (demo_context i) = \<lparr>tv_sec = 1009, tv_usec = 500\<rparr>"
  by (simp_all add: demo_context_def launched_context_def initial_context_def demo_config_def
      defaults_def deadline_def demo_env_def)

lemma demo_first_reached:
  "first_reached (demo_worker i) \<lparr>tv_sec = 1009, tv_usec = 500\<rparr> 0 2"
proof -
  have "\<forall>j<2. \<not> deadline_reached (clock (demo_worker i) (0 + j)) \<lparr>tv_sec = 1009, tv_usec = 500\<rparr>"
  proof (intro allI impI)
    fix j :: nat assume "j < 2"
    then have "5 * int j \<le> 5" by simp
    then show "\<not> deadline_reached (clock (demo_worker i) (0 + j)) \<lparr>tv_sec = 1009, tv_usec = 500\<rparr>"
      by (simp add: deadline_reached_def demo_worker_def)
  qed
  then show ?thesis
    by (simp add: first_reached_def deadline_reached_def demo_worker_def)
qed

lemma demo_passes_0:
  "worker_passes (demo_worker 0) (demo_context 0) 3 =
     Inr \<lparr>ctx = (demo_context 0)\<lparr>transactions := 3, failures := 2\<rparr>, loop_i = 3,
          seed = 3554416254,
          calls =
            [PQconnectdb ''dbname=postgres'' CONNECTION_OK,
             PQexec Set_Repeatable_Read PGRES_COMMAND_OK, PQclear,
             PQexec (Update_Where 0) PGRES_FATAL_ERROR, PQclear,
             Gettimeofday \<lparr>tv_sec = 1000, tv_usec = 500\<rparr>,
             PQexec Select_All PGRES_TUPLES_OK, PQclear,
             Gettimeofday \<lparr>tv_sec = 1005, tv_usec = 500\<rparr>,
             PQexec (Update_Where 3) PGRES_FATAL_ERROR, PQclear,
             Gettimeofday \<lparr>tv_sec = 1010, tv_usec = 500\<rparr>]\<rparr>"
  by (simp add: worker_passes_def demo_worker_def demo_context_def launched_context_def
      loop_entry_def numeral_3_eq_3 loop_body_def c_add_def c_rem_def INT_MAX_def INT_MIN_def
      demo_config_def defaults_def initial_context_def deadline_def demo_env_def
      isolation_statement_def
      demo_rand_r_def count_failure_def count_transaction_def is_update_def Let_def)

lemma demo_passes_2:
  "worker_passes (demo_worker 2) (demo_context 2) 3 =
     Inr \<lparr>ctx = (demo_context 2)\<lparr>transactions := 3, failures := 2\<rparr>, loop_i = 5,
          seed = 1495354192,
          calls =
            [PQconnectdb ''dbname=postgres'' CONNECTION_OK,
             PQexec Set_Repeatable_Read PGRES_COMMAND_OK, PQclear,
             PQexec (Update_Where 3) PGRES_FATAL_ERROR, PQclear,
             Gettimeofday \<lparr>tv_sec = 1000, tv_usec = 500\<rparr>,
             PQexec Select_All PGRES_TUPLES_OK, PQclear,
             Gettimeofday \<lparr>tv_sec = 1005, tv_usec = 500\<rparr>,
             PQexec (Update_Where 2) PGRES_FATAL_ERROR, PQclear,
             Gettimeofday \<lparr>tv_sec = 1010, tv_usec = 500\<rparr>]\<rparr>"
  by (simp add: worker_passes_def demo_worker_def demo_context_def launched_context_def
      loop_entry_def numeral_3_eq_3 loop_body_def c_add_def c_rem_def INT_MAX_def INT_MIN_def
      demo_config_def defaults_def initial_context_def deadline_def demo_env_def
      isolation_statement_def
      demo_rand_r_def count_failure_def count_transaction_def is_update_def Let_def)

lemma demo_worker_status:
  "pq_connect_status (demo_worker 0) = CONNECTION_OK"
  "pq_isolation_status (demo_worker 0) = PGRES_COMMAND_OK"
  "pq_connect_status (demo_worker 1) = CONNECTION_BAD"
  "pq_connect_status (demo_worker 2) = CONNECTION_OK"
  "pq_isolation_status (demo_worker 2) = PGRES_COMMAND_OK"
  by (simp_all add: demo_worker_def)

lemma demo_thread_main_0:
  "\<exists>wcalls. thread_main (demo_worker 0) (demo_context 0) = Some (Inr (demo_finals ! 0, wcalls))"
  using thread_main_run[OF demo_worker_status(1,2), of "demo_context 0" 2]
  by (simp add: demo_context_fields demo_first_reached numeral_3_eq_3[symmetric] demo_passes_0 demo_finals_def)

lemma demo_thread_main_1:
  "\<exists>wcalls. thread_main (demo_worker 1) (demo_context 1) = Some (Inr (demo_finals ! 1, wcalls))"
  by (simp add: thread_main_def demo_worker_def demo_finals_def)

lemma demo_thread_main_2:
  "\<exists>wcalls. thread_main (demo_worker 2) (demo_context 2) = Some (Inr (demo_finals ! 2, wcalls))"
  using thread_main_run[OF demo_worker_status(4,5), of "demo_context 2" 2]
  by (simp add: demo_context_fields demo_first_reached numeral_3_eq_3[symmetric] demo_passes_2 demo_finals_def)

lemma demo_scan: "scan_args (atoi demo_env) demo_argv defaults = Some demo_config"
  by (simp add: demo_env_def demo_argv_def demo_config_def defaults_def atoi_decimal_def digit_of_def)

lemma demo_run:
  "run_benchmark demo_env demo_config =
     Some \<lparr>ending_of = Inr EXIT_SUCCESS, contexts_of = demo_finals,
           trace_of = setup_calls demo_env demo_config @
             [Pthread_create 0 0, Pthread_create 1 0, Pthread_create 2 0,
              Pthread_join 0 0, Pthread_join 1 0, Pthread_join 2 0,
              Printf \<lparr>tps = Finite (6004799503160661 / 9007199254740992), failures_printed = 4\<rparr>]\<rparr>"
proof -
  have n: "nat (threads demo_config) = 3" by (simp add: demo_config_def)
  have u: "[0..<3] = [0, 1, 2]" by (simp add: upt_rec)
  have ok: "setup_ok demo_env" by (simp add: setup_ok_def demo_env_def)
  have q: "INT_MIN \<le> queries_per_update_arg demo_config + 1"
    "queries_per_update_arg demo_config + 1 \<le> INT_MAX"
    by (simp_all add: demo_config_def defaults_def INT_MIN_def INT_MAX_def)
  have cr: "\<forall>i<nat (threads demo_config). pthread_create_result demo_env i = 0"
    and jr: "\<forall>i<nat (threads demo_config). pthread_join_result demo_env i = 0"
    by (simp_all add: demo_env_def)
  have len: "length demo_finals = nat (threads demo_config)"
    by (simp add: n demo_finals_def)
  have tm: "\<forall>i<nat (threads demo_config). \<exists>wcalls.
           thread_main (worker_envs demo_env i) (launched_context demo_env demo_config i) =
             Some (Inr (demo_finals ! i, wcalls))"
  proof (intro allI impI)
    fix i assume "i < nat (threads demo_config)"
    then have "i = 0 \<or> i = 1 \<or> i = 2" unfolding n by (rule less_3_cases)
    moreover have "worker_envs demo_env = demo_worker" by (simp add: demo_env_def)
    ultimately show "\<exists>wcalls.
           thread_main (worker_envs demo_env i) (launched_context demo_env demo_config i) =
             Some (Inr (demo_finals ! i, wcalls))"
      using demo_thread_main_0 demo_thread_main_1 demo_thread_main_2
      unfolding demo_context_def by auto
  qed
  have sums: "sum_list (map transactions demo_finals) = 6" "sum_list (map failures demo_finals) = 4"
    by (simp_all add: demo_finals_def demo_context_fields)
  have s: "sum_list (map transactions demo_finals) \<le> INT_MAX"
    by (simp add: sums INT_MAX_def)
  have rep: "printed_report demo_env demo_config demo_finals = \<lparr>tps = Finite (6004799503160661 / 9007199254740992), failures_printed = 4\<rparr>"
    by (simp add: printed_report_def sums double_div_def demo_config_def nearest_double_6_9)
  show ?thesis
    unfolding run_benchmark_completes[OF ok q cr jr len tm s] n u rep by simp
qed

lemma demo_main:
  "main demo_env demo_argv =
     Some \<lparr>ending_of = Inr EXIT_SUCCESS, contexts_of = demo_finals,
           trace_of = setup_calls demo_env demo_config @
             [Pthread_create 0 0, Pthread_create 1 0, Pthread_create 2 0,
              Pthread_join 0 0, Pthread_join 1 0, Pthread_join 2 0,
              Printf \<lparr>tps = Finite (6004799503160661 / 9007199254740992), failures_printed = 4\<rparr>]\<rparr>"
  by (simp add: main_def demo_scan demo_run)

section \<open>The key of an update\<close>

text \<open>C1. The claim: with \<^verbatim>\<open>rows = R\<close>, the key in every update statement lies in
  \<open>[1, R]\<close>. The code takes \<^verbatim>\<open>rand_r(&seed) % rows\<close> as it is, a value in
  \<open>[0, R - 1]\<close>, while the table holds the keys \<open>1 .. R\<close>. With a table of one row the
  first statement of worker 0 is the update of key 0, whatever \<^verbatim>\<open>rand_r\<close> returns, and
  0 is not in \<open>[1, 1]\<close>.\<close>

theorem update_key_zero_with_one_row:
  "thread_main (one_row_env rnd) one_row_context =
     Some (Inr (one_row_context\<lparr>transactions := 1\<rparr>,
       [PQconnectdb ''dbname=postgres'' CONNECTION_OK,
        PQexec Set_Repeatable_Read PGRES_COMMAND_OK, PQclear,
        PQexec (Update_Where 0) PGRES_COMMAND_OK, PQclear,
        Gettimeofday \<lparr>tv_sec = 60, tv_usec = 0\<rparr>,
        PQfinish]))
   \<and> rows one_row_context = 1
   \<and> \<not> (1 \<le> (0::int) \<and> (0::int) \<le> rows one_row_context)"
proof -
  have fr: "first_reached (one_row_env rnd)
              (finish_time (ctx (loop_entry (one_row_env rnd) one_row_context))) 0 0"
    by (simp add: first_reached_def deadline_reached_def one_row_env_def one_row_context_def
        loop_entry_def initial_context_def)
  obtain rv sd where rnd: "rnd 0 = (rv, sd)" by (cases "rnd 0")
  have body: "loop_body (one_row_env rnd) 0 (loop_entry (one_row_env rnd) one_row_context) =
     Inr \<lparr>ctx = one_row_context\<lparr>transactions := 1\<rparr>, loop_i = 1, seed = sd,
       calls = [PQconnectdb ''dbname=postgres'' CONNECTION_OK,
        PQexec Set_Repeatable_Read PGRES_COMMAND_OK, PQclear,
        PQexec (Update_Where 0) PGRES_COMMAND_OK, PQclear,
        Gettimeofday \<lparr>tv_sec = 60, tv_usec = 0\<rparr>]\<rparr>"
    using rnd
    by (simp add: loop_body_def one_row_env_def one_row_context_def loop_entry_def
        initial_context_def defaults_def c_add_def c_rem_def INT_MAX_def INT_MIN_def
        count_failure_def count_transaction_def expected_status_def isolation_statement_def)
  have "thread_main (one_row_env rnd) one_row_context =
     Some (Inr (one_row_context\<lparr>transactions := 1\<rparr>,
       [PQconnectdb ''dbname=postgres'' CONNECTION_OK,
        PQexec Set_Repeatable_Read PGRES_COMMAND_OK, PQclear,
        PQexec (Update_Where 0) PGRES_COMMAND_OK, PQclear,
        Gettimeofday \<lparr>tv_sec = 60, tv_usec = 0\<rparr>,
        PQfinish]))"
    unfolding thread_main_def worker_loop_exit[OF fr]
    by (simp add: body) (simp add: one_row_env_def)
  moreover have "rows one_row_context = 1"
    by (simp add: one_row_context_def initial_context_def)
  ultimately show ?thesis by simp
qed

section \<open>Releasing the session\<close>

text \<open>C2. The claim: a worker releases its session on every exit path, the failure to open
  it included. When \<^verbatim>\<open>PQconnectdb\<close> returns a connection that is not
  \<^verbatim>\<open>CONNECTION_OK\<close>, \<^verbatim>\<open>thread_main\<close> prints its message and returns at line 51: the
  connection object is never passed to \<^verbatim>\<open>PQfinish\<close>, which the other two exits reach
  through the label \<^verbatim>\<open>fail\<close>.\<close>

theorem connect_failure_returns_without_PQfinish:
  "thread_main (env\<lparr>pq_connect_status := CONNECTION_BAD\<rparr>) c =
     Some (Inr (c, [PQconnectdb (conn_info c) CONNECTION_BAD,
                    Fprintf_stderr (Failed_To_Connect (thread_number c))]))
   \<and> PQfinish \<notin> set [PQconnectdb (conn_info c) CONNECTION_BAD,
                    Fprintf_stderr (Failed_To_Connect (thread_number c))]"
  by (simp add: thread_main_def)

section \<open>A worker that cannot be launched\<close>

text \<open>C3. The claim: when launching a worker fails, the driver aborts the run with a
  startup error and no report. The code tests \<^verbatim>\<open>pthread_create(...) < 0\<close> (line 204), and
  \<^verbatim>\<open>pthread_create\<close> reports a failure by returning a positive error number. In the example
  run with \<^verbatim>\<open>EAGAIN\<close> for worker 2 the launch loop takes no notice and leaves without an
  exit; \<^verbatim>\<open>main\<close> waits for workers 0 and 1, which run their full time, and then joins the
  handle of worker 2 that was never stored.\<close>

theorem failed_pthread_create_not_detected:
  "launch_workers eagain_env demo_config (deadline eagain_env demo_config) [0, 1, 2]
       \<lparr>thread_contexts = [], trace = setup_calls eagain_env demo_config\<rparr> =
     (None,
      \<lparr>thread_contexts =
         [demo_context 0, demo_context 1, (demo_context 2)\<lparr>thread_handle := None\<rparr>],
       trace = setup_calls eagain_env demo_config @
         [Pthread_create 0 0, Pthread_create 1 0, Pthread_create 2 11]\<rparr>)
   \<and> main eagain_env demo_argv =
     Some \<lparr>ending_of = Inl Indeterminate_Thread_Handle,
           contexts_of = [demo_finals ! 0, demo_finals ! 1],
           trace_of = setup_calls eagain_env demo_config @
             [Pthread_create 0 0, Pthread_create 1 0, Pthread_create 2 11,
              Pthread_join 0 0, Pthread_join 1 0]\<rparr>"
proof -
  have d: "deadline eagain_env demo_config = deadline demo_env demo_config"
    by (simp add: deadline_def eagain_env_def)
  have l: "launch_workers eagain_env demo_config (deadline eagain_env demo_config) [0, 1, 2]
       \<lparr>thread_contexts = [], trace = setup_calls eagain_env demo_config\<rparr> =
     (None,
      \<lparr>thread_contexts =
         [demo_context 0, demo_context 1, (demo_context 2)\<lparr>thread_handle := None\<rparr>],
       trace = setup_calls eagain_env demo_config @
         [Pthread_create 0 0, Pthread_create 1 0, Pthread_create 2 11]\<rparr>)"
    unfolding d
    by (simp add: eagain_env_def demo_config_def defaults_def c_add_def INT_MIN_def INT_MAX_def
        demo_context_def launched_context_def initial_context_def Let_def)
  have ok: "setup_ok eagain_env" by (simp add: setup_ok_def eagain_env_def demo_env_def)
  have sc: "scan_args (atoi eagain_env) demo_argv defaults = Some demo_config"
    using demo_scan by (simp add: eagain_env_def)
  have n: "[0..<nat (threads demo_config)] = [0, 1, 2]"
    by (simp add: demo_config_def upt_rec)
  have e: "pthread_join_result eagain_env = (\<lambda>i. 0)" "worker_envs eagain_env = demo_worker"
    by (simp_all add: eagain_env_def demo_env_def)
  have h: "thread_handle (demo_context 0) = Some 0" "thread_handle (demo_context 1) = Some 1"
    by (simp_all add: demo_context_def launched_context_def)
  obtain w0 where t0: "thread_main (demo_worker 0) (demo_context 0) = Some (Inr (demo_finals ! 0, w0))"
    using demo_thread_main_0 by blast
  obtain w1 where t1: "thread_main (demo_worker 1) (demo_context 1) = Some (Inr (demo_finals ! 1, w1))"
    using demo_thread_main_1 by blast
  have j: "join_workers eagain_env 0
       [demo_context 0, demo_context 1, (demo_context 2)\<lparr>thread_handle := None\<rparr>]
       \<lparr>thread_contexts = [],
         trace = setup_calls eagain_env demo_config @
           [Pthread_create 0 0, Pthread_create 1 0, Pthread_create 2 11]\<rparr> =
     Some (Some (Inl Indeterminate_Thread_Handle),
       \<lparr>thread_contexts = [demo_finals ! 0, demo_finals ! 1],
         trace = setup_calls eagain_env demo_config @
           [Pthread_create 0 0, Pthread_create 1 0, Pthread_create 2 11,
            Pthread_join 0 0, Pthread_join 1 0]\<rparr>)"
    using e h t0 t1 by (simp add: Let_def)
  have "run_benchmark eagain_env demo_config =
     Some \<lparr>ending_of = Inl Indeterminate_Thread_Handle,
           contexts_of = [demo_finals ! 0, demo_finals ! 1],
           trace_of = setup_calls eagain_env demo_config @
             [Pthread_create 0 0, Pthread_create 1 0, Pthread_create 2 11,
              Pthread_join 0 0, Pthread_join 1 0]\<rparr>"
    unfolding run_benchmark_after_setup[OF ok] n l
    by (simp only: j prod.case option.case finish_def driver_state.simps append_Nil2)
  with l main_scanned[OF sc] show ?thesis by simp
qed

section \<open>The statement mix\<close>

text \<open>C4. With \<^verbatim>\<open>cycle = queries_per_update + 1\<close> (line 200), a worker number and a
  \<^verbatim>\<open>queries_per_update\<close> that are not negative: after any \<open>n\<close> passes of a worker, \<^verbatim>\<open>i\<close>
  is the worker's number plus \<open>n\<close>; pass \<open>j\<close> sent an update exactly when the worker's
  number plus \<open>j\<close> is 0 modulo the cycle, and the select otherwise; and every \<open>cycle\<close>
  consecutive passes hold exactly one update.\<close>

theorem mix_generator_one_update_per_cycle:
  assumes "0 \<le> thread_number c" "0 \<le> queries_per_update c"
    and "cycle c = queries_per_update c + 1"
    and "worker_passes env c n = Inr st"
  shows "loop_i st = thread_number c + int n
     \<and> length (loop_statements (calls st)) = n
     \<and> (\<forall>j<n. is_update (fst (loop_statements (calls st) ! j)) \<longleftrightarrow>
               (thread_number c + int j) mod (queries_per_update c + 1) = 0)
     \<and> (\<forall>j<n. \<not> is_update (fst (loop_statements (calls st) ! j)) \<longrightarrow>
               fst (loop_statements (calls st) ! j) = Select_All)
     \<and> (\<forall>a. a + nat (queries_per_update c + 1) \<le> n \<longrightarrow>
           (\<exists>!j. a \<le> j \<and> j < a + nat (queries_per_update c + 1) \<and>
                 is_update (fst (loop_statements (calls st) ! j))))"
proof -
  let ?ss = "loop_statements (calls st)"
  let ?cyc = "queries_per_update c + 1"
  have it: "iterate_body env 0 n (loop_entry env c) = Inr st"
    using assms(4) by (simp add: worker_passes_def)
  from iterate_body_Inr[OF it] obtain ss where
    li0: "loop_i st = loop_i (loop_entry env c) + int n"
    and ss: "length ss = n"
      "loop_statements (calls st) = loop_statements (calls (loop_entry env c)) @ ss"
      "\<forall>j<n. pass_statement env (ctx (loop_entry env c))
               (loop_i (loop_entry env c) + int j) (0 + j) (ss ! j)"
    by blast
  have li: "loop_i st = thread_number c + int n" using li0 by simp
  have eq: "?ss = ss" using ss(2) by simp
  have len: "length ?ss = n" using ss(1) eq by simp
  have ps: "\<forall>j<n. pass_statement env c (thread_number c + int j) j (?ss ! j)"
    using ss(3) eq by simp
  have upd: "\<forall>j<n. is_update (fst (?ss ! j)) \<longleftrightarrow> (thread_number c + int j) mod ?cyc = 0"
  proof (intro allI impI)
    fix j assume "j < n"
    with ps have "pass_statement env c (thread_number c + int j) j (?ss ! j)" by blast
    then have "is_update (fst (?ss ! j)) \<longleftrightarrow> c_rem (thread_number c + int j) (cycle c) = Inr 0"
      unfolding pass_statement_def by blast
    also have "\<dots> \<longleftrightarrow> (thread_number c + int j) mod ?cyc = 0"
      unfolding assms(3) using assms(1,2) by (intro c_rem_zero_iff) simp_all
    finally show "is_update (fst (?ss ! j)) \<longleftrightarrow> (thread_number c + int j) mod ?cyc = 0" .
  qed
  have sel: "\<forall>j<n. \<not> is_update (fst (?ss ! j)) \<longrightarrow> fst (?ss ! j) = Select_All"
  proof (intro allI impI)
    fix j assume "j < n" "\<not> is_update (fst (?ss ! j))"
    with ps have "pass_statement env c (thread_number c + int j) j (?ss ! j)" by blast
    then have "fst (?ss ! j) = Select_All \<or> (\<exists>key. fst (?ss ! j) = Update_Where key)"
      unfolding pass_statement_def by blast
    with \<open>\<not> is_update (fst (?ss ! j))\<close> show "fst (?ss ! j) = Select_All"
      by (auto simp: is_update_def)
  qed
  have win: "\<forall>a. a + nat ?cyc \<le> n \<longrightarrow>
           (\<exists>!j. a \<le> j \<and> j < a + nat ?cyc \<and> is_update (fst (?ss ! j)))"
  proof (intro allI impI)
    fix a assume a: "a + nat ?cyc \<le> n"
    have c1: "1 \<le> ?cyc" using assms(2) by simp
    have ex1: "\<exists>!j. a \<le> j \<and> j < a + nat ?cyc \<and> (thread_number c + int j) mod ?cyc = 0"
      by (rule one_multiple_per_window[OF c1])
    have same: "a \<le> j \<and> j < a + nat ?cyc \<and> is_update (fst (?ss ! j)) \<longleftrightarrow>
                a \<le> j \<and> j < a + nat ?cyc \<and> (thread_number c + int j) mod ?cyc = 0" for j
    proof (cases "j < n")
      case True
      with upd show ?thesis by simp
    next
      case False
      with a show ?thesis by simp
    qed
    show "\<exists>!j. a \<le> j \<and> j < a + nat ?cyc \<and> is_update (fst (?ss ! j))"
      unfolding same by (rule ex1)
  qed
  show ?thesis
    apply (intro conjI)
        apply (rule li)
       apply (rule len)
      apply (rule upd)
     apply (rule sel)
    apply (rule win)
    done
qed

theorem mix_generator_witness:
  "0 \<le> thread_number (demo_context 0) \<and> 0 \<le> queries_per_update (demo_context 0) \<and>
   cycle (demo_context 0) = queries_per_update (demo_context 0) + 1 \<and>
   (\<exists>st. worker_passes (demo_worker 0) (demo_context 0) 3 = Inr st \<and>
      loop_i st = 3 \<and> length (loop_statements (calls st)) = 3 \<and>
      is_update (fst (loop_statements (calls st) ! 0)) \<and>
      fst (loop_statements (calls st) ! 1) = Select_All \<and>
      is_update (fst (loop_statements (calls st) ! 2)) \<and>
      (\<exists>!j. 1 \<le> j \<and> j < 1 + nat (queries_per_update (demo_context 0) + 1) \<and>
            is_update (fst (loop_statements (calls st) ! j))))"
proof -
  have h: "0 \<le> thread_number (demo_context 0)" "0 \<le> queries_per_update (demo_context 0)"
    "cycle (demo_context 0) = queries_per_update (demo_context 0) + 1"
    by (simp_all add: demo_context_fields)
  obtain st where run: "worker_passes (demo_worker 0) (demo_context 0) 3 = Inr st"
    using demo_passes_0 by blast
  note T = mix_generator_one_update_per_cycle[OF h run]
  note upd = T[THEN conjunct2, THEN conjunct2, THEN conjunct1, rule_format]
  note sel = T[THEN conjunct2, THEN conjunct2, THEN conjunct2, THEN conjunct1, rule_format]
  note win = T[THEN conjunct2, THEN conjunct2, THEN conjunct2, THEN conjunct2, rule_format]
  have li: "loop_i st = 3" using T[THEN conjunct1] by (simp add: demo_context_fields)
  have len: "length (loop_statements (calls st)) = 3" by (rule T[THEN conjunct2, THEN conjunct1])
  have u0: "is_update (fst (loop_statements (calls st) ! 0))"
    using upd[of 0] by (simp add: demo_context_fields)
  have u1: "\<not> is_update (fst (loop_statements (calls st) ! 1))"
    using upd[of 1] by (simp add: demo_context_fields)
  have s1: "fst (loop_statements (calls st) ! 1) = Select_All"
    using sel[of 1] u1 by simp
  have u2: "is_update (fst (loop_statements (calls st) ! 2))"
    using upd[of 2] by (simp add: demo_context_fields)
  have p1: "1 + nat (queries_per_update (demo_context 0) + 1) \<le> 3"
    by (simp add: demo_context_fields)
  note w1 = win[OF p1]
  from h run li len u0 s1 u2 w1 show ?thesis by blast
qed

section \<open>The counters\<close>

text \<open>C5. Every pass adds exactly one to \<^verbatim>\<open>transactions\<close>, whatever the statement's
  result, and one to \<^verbatim>\<open>failures\<close> exactly when the statement's result status is not the
  one the loop accepts. So for a worker started with both counters at 0, after any \<open>n\<close>
  passes \<^verbatim>\<open>transactions\<close> is \<open>n\<close>, the number of statements sent, \<^verbatim>\<open>failures\<close> is the
  number of those that failed, and \<^verbatim>\<open>failures\<close> is at most \<^verbatim>\<open>transactions\<close>; the next
  pass, if it completes, adds one transaction and one failure or none.\<close>

theorem counters_track_iterations:
  assumes "transactions c = 0" "failures c = 0"
    and "worker_passes env c n = Inr st"
  shows "transactions (ctx st) = int n
     \<and> length (loop_statements (calls st)) = n
     \<and> failures (ctx st) = int (length (filter failed (loop_statements (calls st))))
     \<and> failures (ctx st) \<le> transactions (ctx st)
     \<and> (\<forall>j<n. snd (loop_statements (calls st) ! j) =
               pq_exec_status env j (fst (loop_statements (calls st) ! j)))
     \<and> (\<forall>st'. loop_body env n st = Inr st' \<longrightarrow>
           transactions (ctx st') = transactions (ctx st) + 1 \<and>
           (\<exists>sr. loop_statements (calls st') = loop_statements (calls st) @ [sr] \<and>
                 snd sr = pq_exec_status env n (fst sr) \<and>
                 failures (ctx st') = failures (ctx st) + (if failed sr then 1 else 0)))"
proof -
  let ?ss = "loop_statements (calls st)"
  have it: "iterate_body env 0 n (loop_entry env c) = Inr st"
    using assms(3) by (simp add: worker_passes_def)
  from iterate_body_Inr[OF it] obtain ss where
    t0: "transactions (ctx st) = transactions (ctx (loop_entry env c)) + int n"
    and ss: "length ss = n"
      "loop_statements (calls st) = loop_statements (calls (loop_entry env c)) @ ss"
      "\<forall>j<n. pass_statement env (ctx (loop_entry env c))
               (loop_i (loop_entry env c) + int j) (0 + j) (ss ! j)"
      "failures (ctx st) = failures (ctx (loop_entry env c)) + int (length (filter failed ss))"
    by blast
  have eq: "?ss = ss" using ss(2) by simp
  have t: "transactions (ctx st) = int n" using t0 assms(1) by simp
  have len: "length ?ss = n" using ss(1) eq by simp
  have f: "failures (ctx st) = int (length (filter failed ?ss))"
    using ss(4) eq assms(2) by simp
  have "length (filter failed ?ss) \<le> length ?ss" by (rule length_filter_le)
  with f t len have le: "failures (ctx st) \<le> transactions (ctx st)" by simp
  have st: "\<forall>j<n. snd (?ss ! j) = pq_exec_status env j (fst (?ss ! j))"
  proof (intro allI impI)
    fix j assume "j < n"
    with ss(3) have "pass_statement env (ctx (loop_entry env c))
               (loop_i (loop_entry env c) + int j) (0 + j) (ss ! j)" by blast
    then show "snd (?ss ! j) = pq_exec_status env j (fst (?ss ! j))"
      unfolding eq pass_statement_def by simp
  qed
  have body: "\<forall>st'. loop_body env n st = Inr st' \<longrightarrow>
           transactions (ctx st') = transactions (ctx st) + 1 \<and>
           (\<exists>sr. loop_statements (calls st') = ?ss @ [sr] \<and>
                 snd sr = pq_exec_status env n (fst sr) \<and>
                 failures (ctx st') = failures (ctx st) + (if failed sr then 1 else 0))"
  proof (intro allI impI)
    fix st' assume b: "loop_body env n st = Inr st'"
    from loop_body_Inr[OF b] obtain s where s:
      "calls st' = calls st @ [PQexec s (pq_exec_status env n s), PQclear, Gettimeofday (clock env n)]"
      "s = Select_All \<or> (\<exists>key. s = Update_Where key \<and>
           c_rem (fst (rand_r env (seed st))) (rows (ctx st)) = Inr key)"
      "transactions (ctx st') = transactions (ctx st) + 1"
      "failures (ctx st') =
         failures (ctx st) + (if pq_exec_status env n s = expected_status s then 0 else 1)"
      by blast
    have "loop_statements (calls st') = ?ss @ [(s, pq_exec_status env n s)]"
      unfolding s(1) using s(2) by (intro loop_statements_pass) blast
    moreover have "failures (ctx st') =
       failures (ctx st) + (if failed (s, pq_exec_status env n s) then 1 else 0)"
      using s(4) by (simp add: failed_def)
    ultimately have "\<exists>sr. loop_statements (calls st') = ?ss @ [sr] \<and>
                 snd sr = pq_exec_status env n (fst sr) \<and>
                 failures (ctx st') = failures (ctx st) + (if failed sr then 1 else 0)"
      by (intro exI[of _ "(s, pq_exec_status env n s)"]) simp
    with s(3) show "transactions (ctx st') = transactions (ctx st) + 1 \<and>
           (\<exists>sr. loop_statements (calls st') = ?ss @ [sr] \<and>
                 snd sr = pq_exec_status env n (fst sr) \<and>
                 failures (ctx st') = failures (ctx st) + (if failed sr then 1 else 0))"
      by blast
  qed
  show ?thesis
    apply (intro conjI)
         apply (rule t)
        apply (rule len)
       apply (rule f)
      apply (rule le)
     apply (rule st)
    apply (rule body)
    done
qed

theorem counters_track_iterations_witness:
  "transactions (demo_context 0) = 0 \<and> failures (demo_context 0) = 0 \<and>
   (\<exists>st. worker_passes (demo_worker 0) (demo_context 0) 3 = Inr st \<and>
      transactions (ctx st) = 3 \<and> failures (ctx st) = 2 \<and>
      length (filter failed (loop_statements (calls st))) = 2 \<and>
      failures (ctx st) \<le> transactions (ctx st) \<and>
      (\<exists>st'. loop_body (demo_worker 0) 3 st = Inr st' \<and>
         transactions (ctx st') = 4 \<and> failures (ctx st') = 2))"
proof -
  have h: "transactions (demo_context 0) = 0" "failures (demo_context 0) = 0"
    by (simp_all add: demo_context_fields)
  define st where "st = \<lparr>ctx = (demo_context 0)\<lparr>transactions := 3, failures := 2\<rparr>, loop_i = 3,
          seed = (3554416254 :: 32 word),
          calls =
            [PQconnectdb ''dbname=postgres'' CONNECTION_OK,
             PQexec Set_Repeatable_Read PGRES_COMMAND_OK, PQclear,
             PQexec (Update_Where 0) PGRES_FATAL_ERROR, PQclear,
             Gettimeofday \<lparr>tv_sec = 1000, tv_usec = 500\<rparr>,
             PQexec Select_All PGRES_TUPLES_OK, PQclear,
             Gettimeofday \<lparr>tv_sec = 1005, tv_usec = 500\<rparr>,
             PQexec (Update_Where 3) PGRES_FATAL_ERROR, PQclear,
             Gettimeofday \<lparr>tv_sec = 1010, tv_usec = 500\<rparr>]\<rparr>"
  have run: "worker_passes (demo_worker 0) (demo_context 0) 3 = Inr st"
    unfolding st_def by (rule demo_passes_0)
  note T = counters_track_iterations[OF h run]
  have t: "transactions (ctx st) = 3" using T[THEN conjunct1] by simp
  have f: "failures (ctx st) = 2" by (simp add: st_def)
  have fl: "length (filter failed (loop_statements (calls st))) = 2"
    using T[THEN conjunct2, THEN conjunct2, THEN conjunct1] f by simp
  have le: "failures (ctx st) \<le> transactions (ctx st)"
    by (rule T[THEN conjunct2, THEN conjunct2, THEN conjunct2, THEN conjunct1])
  obtain st' where b: "loop_body (demo_worker 0) 3 st = Inr st'" and f': "failures (ctx st') = 2"
    by (simp add: st_def loop_body_def demo_worker_def demo_context_fields c_add_def c_rem_def
        INT_MAX_def INT_MIN_def count_failure_def count_transaction_def is_update_def Let_def)
  from T[THEN conjunct2, THEN conjunct2, THEN conjunct2, THEN conjunct2, THEN conjunct2,
         rule_format, OF b] t
  have t': "transactions (ctx st') = 4" by simp
  from h run t f fl le b t' f' show ?thesis by blast
qed

section \<open>The report\<close>

text \<open>C6. For every run of \<^verbatim>\<open>main\<close> that returns: a report is printed only by a run that
  ends with \<^verbatim>\<open>EXIT_SUCCESS\<close>; and in such a run every one of the \<^verbatim>\<open>threads\<close> workers was
  created and joined, the contexts read are the ones \<^verbatim>\<open>thread_main\<close> left when it
  returned, the \<^verbatim>\<open>printf\<close> is the last call, after all the joins, and it prints the sum
  \<open>F\<close> of the workers' \<^verbatim>\<open>failures\<close> and, as throughput, the quotient \<open>T / d\<close> of the sum
  \<open>T\<close> of their \<^verbatim>\<open>transactions\<close> by the configured \<^verbatim>\<open>seconds\<close> \<open>d\<close>, as a \<^verbatim>\<open>double\<close>: when
  neither is 0 the number printed is a \<open>v = k * 2 ^ n\<close> or \<open>v = k / 2 ^ n\<close> with
  \<open>\<bar>k\<bar> \<le> 2 ^ 53\<close>, it lies within \<open>\<bar>T / d\<bar> / 2 ^ 53\<close> of the rational number \<open>T / d\<close>, and no
  number of that shape lies closer to \<open>T / d\<close> (so that it is \<open>T / d\<close> itself when \<open>T / d\<close>
  has that shape); with \<open>T = 0\<close> and \<open>d \<noteq> 0\<close> it is zero (the negative zero for a
  negative \<open>d\<close>); with \<open>d = 0\<close> it is no number: an infinity, or NaN when \<open>T = 0\<close> too. The
  divisor is the configured \<^verbatim>\<open>seconds\<close>, not a time that was measured.\<close>

theorem report_is_sum_over_joined_workers:
  assumes "scan_args (atoi env) argv defaults = Some cfg" and "main env argv = Some r"
  shows "(list_ex is_printf (trace_of r) \<longrightarrow> ending_of r = Inr EXIT_SUCCESS)
     \<and> (ending_of r = Inr EXIT_SUCCESS \<longrightarrow>
          length (contexts_of r) = nat (threads cfg) \<and>
          (\<forall>i<nat (threads cfg). \<exists>wcalls.
              thread_main (worker_envs env i) (launched_context env cfg i) =
                Some (Inr (contexts_of r ! i, wcalls))) \<and>
          trace_of r =
            setup_calls env cfg @ map (\<lambda>i. Pthread_create i 0) [0..<nat (threads cfg)] @
            map (\<lambda>i. Pthread_join i 0) [0..<nat (threads cfg)] @
            [Printf \<lparr>tps = double_div (sum_list (map transactions (contexts_of r))) (seconds cfg),
                     failures_printed = sum_list (map failures (contexts_of r))\<rparr>] \<and>
          (\<exists>before rep T d.
             trace_of r = before @ [Printf rep] \<and>
             T = sum_list (map transactions (contexts_of r)) \<and> d = seconds cfg \<and>
             failures_printed rep = sum_list (map failures (contexts_of r)) \<and>
             (d = 0 \<and>
                tps rep = (if T = 0 then NaN else if 0 < T then Plus_Infinity else Minus_Infinity)
              \<or> d \<noteq> 0 \<and> T = 0 \<and> tps rep = (if d < 0 then Negative_Zero else Finite 0)
              \<or> d \<noteq> 0 \<and> T \<noteq> 0 \<and>
                (\<exists>v k n. tps rep = Finite v \<and>
                   (v = of_int k * 2 ^ n \<or> v = of_int k / 2 ^ n) \<and> \<bar>k\<bar> \<le> 2 ^ 53 \<and>
                   \<bar>v - of_int T / of_int d\<bar> \<le> \<bar>of_int T / of_int d\<bar> / 2 ^ 53 \<and>
                   (\<forall>k' n'. \<bar>k'\<bar> \<le> 2 ^ 53 \<longrightarrow>
                      \<bar>v - of_int T / of_int d\<bar> \<le> \<bar>of_int k' * 2 ^ n' - of_int T / of_int d\<bar> \<and>
                      \<bar>v - of_int T / of_int d\<bar> \<le> \<bar>of_int k' / 2 ^ n' - of_int T / of_int d\<bar>)))))"
proof (intro conjI impI)
  have rb: "run_benchmark env cfg = Some r" using assms by (simp add: main_def)
  from run_benchmark_any[OF rb] obtain rest where
    t: "trace_of r = Main_gettimeofday (now_main env) # rest"
    and p: "list_ex is_printf rest \<longrightarrow> ending_of r = Inr EXIT_SUCCESS" by blast
  {
    assume "list_ex is_printf (trace_of r)"
    then have "list_ex is_printf rest" unfolding t by (simp add: is_printf_def)
    with p show "ending_of r = Inr EXIT_SUCCESS" by blast
  }
  assume s: "ending_of r = Inr EXIT_SUCCESS"
  note S = run_benchmark_success[OF rb s]
  from S show "length (contexts_of r) = nat (threads cfg)" by blast
  from S show "\<forall>i<nat (threads cfg). \<exists>wcalls.
              thread_main (worker_envs env i) (launched_context env cfg i) =
                Some (Inr (contexts_of r ! i, wcalls))" by blast
  define T where "T = sum_list (map transactions (contexts_of r))"
  define d where "d = seconds cfg"
  define rep where "rep = \<lparr>tps = double_div T d,
                     failures_printed = sum_list (map failures (contexts_of r))\<rparr>"
  define before where "before =
            setup_calls env cfg @ map (\<lambda>i. Pthread_create i 0) [0..<nat (threads cfg)] @
            map (\<lambda>i. Pthread_join i 0) [0..<nat (threads cfg)]"
  from S have tr: "trace_of r =
            setup_calls env cfg @ map (\<lambda>i. Pthread_create i 0) [0..<nat (threads cfg)] @
            map (\<lambda>i. Pthread_join i 0) [0..<nat (threads cfg)] @ [Printf rep]"
    by (simp add: printed_report_def rep_def T_def d_def)
  then show "trace_of r =
            setup_calls env cfg @ map (\<lambda>i. Pthread_create i 0) [0..<nat (threads cfg)] @
            map (\<lambda>i. Pthread_join i 0) [0..<nat (threads cfg)] @
            [Printf \<lparr>tps = double_div (sum_list (map transactions (contexts_of r))) (seconds cfg),
                     failures_printed = sum_list (map failures (contexts_of r))\<rparr>]"
    by (simp add: rep_def T_def d_def)
  have b: "trace_of r = before @ [Printf rep]" using tr by (simp add: before_def)
  have f: "failures_printed rep = sum_list (map failures (contexts_of r))" by (simp add: rep_def)
  have tp: "tps rep = double_div T d" by (simp add: rep_def)
  have q: "d = 0 \<and>
                tps rep = (if T = 0 then NaN else if 0 < T then Plus_Infinity else Minus_Infinity)
              \<or> d \<noteq> 0 \<and> T = 0 \<and> tps rep = (if d < 0 then Negative_Zero else Finite 0)
              \<or> d \<noteq> 0 \<and> T \<noteq> 0 \<and>
                (\<exists>v k n. tps rep = Finite v \<and>
                   (v = of_int k * 2 ^ n \<or> v = of_int k / 2 ^ n) \<and> \<bar>k\<bar> \<le> 2 ^ 53 \<and>
                   \<bar>v - of_int T / of_int d\<bar> \<le> \<bar>of_int T / of_int d\<bar> / 2 ^ 53 \<and>
                   (\<forall>k' n'. \<bar>k'\<bar> \<le> 2 ^ 53 \<longrightarrow>
                      \<bar>v - of_int T / of_int d\<bar> \<le> \<bar>of_int k' * 2 ^ n' - of_int T / of_int d\<bar> \<and>
                      \<bar>v - of_int T / of_int d\<bar> \<le> \<bar>of_int k' / 2 ^ n' - of_int T / of_int d\<bar>))"
  proof (cases "d = 0")
    case True
    then show ?thesis by (simp add: tp double_div_def)
  next
    case d0: False
    show ?thesis
    proof (cases "T = 0")
      case True
      with d0 show ?thesis by (simp add: tp double_div_def)
    next
      case False
      from double_div_nearest[OF False d0] False d0 show ?thesis unfolding tp by blast
    qed
  qed
  show "\<exists>before rep T d.
             trace_of r = before @ [Printf rep] \<and>
             T = sum_list (map transactions (contexts_of r)) \<and> d = seconds cfg \<and>
             failures_printed rep = sum_list (map failures (contexts_of r)) \<and>
             (d = 0 \<and>
                tps rep = (if T = 0 then NaN else if 0 < T then Plus_Infinity else Minus_Infinity)
              \<or> d \<noteq> 0 \<and> T = 0 \<and> tps rep = (if d < 0 then Negative_Zero else Finite 0)
              \<or> d \<noteq> 0 \<and> T \<noteq> 0 \<and>
                (\<exists>v k n. tps rep = Finite v \<and>
                   (v = of_int k * 2 ^ n \<or> v = of_int k / 2 ^ n) \<and> \<bar>k\<bar> \<le> 2 ^ 53 \<and>
                   \<bar>v - of_int T / of_int d\<bar> \<le> \<bar>of_int T / of_int d\<bar> / 2 ^ 53 \<and>
                   (\<forall>k' n'. \<bar>k'\<bar> \<le> 2 ^ 53 \<longrightarrow>
                      \<bar>v - of_int T / of_int d\<bar> \<le> \<bar>of_int k' * 2 ^ n' - of_int T / of_int d\<bar> \<and>
                      \<bar>v - of_int T / of_int d\<bar> \<le> \<bar>of_int k' / 2 ^ n' - of_int T / of_int d\<bar>)))"
    apply (rule exI[of _ before])
    apply (rule exI[of _ rep])
    apply (rule exI[of _ T])
    apply (rule exI[of _ d])
    apply (intro conjI)
        apply (rule b)
       apply (rule T_def)
      apply (rule d_def)
     apply (rule f)
    apply (rule q)
    done
qed

theorem report_is_sum_over_joined_workers_witness:
  "scan_args (atoi demo_env) demo_argv defaults = Some demo_config \<and>
   (\<exists>r. main demo_env demo_argv = Some r \<and> ending_of r = Inr EXIT_SUCCESS \<and>
      contexts_of r = demo_finals \<and>
      length (contexts_of r) = nat (threads demo_config) \<and>
      (\<exists>wcalls. thread_main (worker_envs demo_env 2) (launched_context demo_env demo_config 2) =
                Some (Inr (contexts_of r ! 2, wcalls))) \<and>
      trace_of r =
        setup_calls demo_env demo_config @
        map (\<lambda>i. Pthread_create i 0) [0..<nat (threads demo_config)] @
        map (\<lambda>i. Pthread_join i 0) [0..<nat (threads demo_config)] @
        [Printf \<lparr>tps = double_div (sum_list (map transactions (contexts_of r))) (seconds demo_config),
                 failures_printed = sum_list (map failures (contexts_of r))\<rparr>] \<and>
      sum_list (map transactions (contexts_of r)) = 6 \<and> seconds demo_config = 9 \<and>
      sum_list (map failures (contexts_of r)) = 4 \<and>
      (\<exists>before v. trace_of r = before @ [Printf \<lparr>tps = Finite v, failures_printed = 4\<rparr>] \<and>
         v = 6004799503160661 / 2 ^ 53 \<and>
         \<bar>6004799503160661\<bar> \<le> (2 ^ 53 :: int) \<and>
         \<bar>v - 6 / 9\<bar> \<le> \<bar>6 / 9\<bar> / 2 ^ 53 \<and>
         \<bar>v - 6 / 9\<bar> \<le> \<bar>6004799503160660 / 2 ^ 53 - 6 / 9\<bar> \<and>
         \<bar>v - 6 / 9\<bar> \<le> \<bar>6004799503160662 / 2 ^ 53 - 6 / 9\<bar>))"
proof -
  define r where "r = \<lparr>ending_of = Inr EXIT_SUCCESS, contexts_of = demo_finals,
           trace_of = setup_calls demo_env demo_config @
             [Pthread_create 0 0, Pthread_create 1 0, Pthread_create 2 0,
              Pthread_join 0 0, Pthread_join 1 0, Pthread_join 2 0,
              Printf \<lparr>tps = Finite (6004799503160661 / 9007199254740992), failures_printed = 4\<rparr>]\<rparr>"
  have m: "main demo_env demo_argv = Some r" unfolding r_def by (rule demo_main)
  have e: "ending_of r = Inr EXIT_SUCCESS" and c: "contexts_of r = demo_finals"
    by (simp_all add: r_def)
  note T = report_is_sum_over_joined_workers[OF demo_scan m, THEN conjunct2, rule_format, OF e]
  have two: "2 < nat (threads demo_config)" by (simp add: demo_config_def)
  from T have t2: "\<exists>wcalls. thread_main (worker_envs demo_env 2) (launched_context demo_env demo_config 2) =
                Some (Inr (contexts_of r ! 2, wcalls))"
    using two by blast
  have st: "sum_list (map transactions (contexts_of r)) = 6"
    by (simp add: c demo_finals_def demo_context_fields)
  have sd: "seconds demo_config = 9" by (simp add: demo_config_def)
  have f: "sum_list (map failures (contexts_of r)) = 4"
    by (simp add: c demo_finals_def demo_context_fields)
  from T[THEN conjunct2, THEN conjunct2, THEN conjunct2] obtain before rep where
    tr: "trace_of r = before @ [Printf rep]"
    and fp: "failures_printed rep = sum_list (map failures (contexts_of r))"
    and q: "seconds demo_config = 0 \<and>
                tps rep = (if sum_list (map transactions (contexts_of r)) = 0 then NaN
                           else if 0 < sum_list (map transactions (contexts_of r))
                                then Plus_Infinity else Minus_Infinity)
              \<or> seconds demo_config \<noteq> 0 \<and> sum_list (map transactions (contexts_of r)) = 0 \<and>
                tps rep = (if seconds demo_config < 0 then Negative_Zero else Finite 0)
              \<or> seconds demo_config \<noteq> 0 \<and> sum_list (map transactions (contexts_of r)) \<noteq> 0 \<and>
                (\<exists>v k n. tps rep = Finite v \<and>
                   (v = of_int k * 2 ^ n \<or> v = of_int k / 2 ^ n) \<and> \<bar>k\<bar> \<le> 2 ^ 53 \<and>
                   \<bar>v - of_int (sum_list (map transactions (contexts_of r))) / of_int (seconds demo_config)\<bar>
                      \<le> \<bar>of_int (sum_list (map transactions (contexts_of r))) / of_int (seconds demo_config)\<bar> / 2 ^ 53 \<and>
                   (\<forall>k' n'. \<bar>k'\<bar> \<le> 2 ^ 53 \<longrightarrow>
                      \<bar>v - of_int (sum_list (map transactions (contexts_of r))) / of_int (seconds demo_config)\<bar>
                        \<le> \<bar>of_int k' * 2 ^ n' - of_int (sum_list (map transactions (contexts_of r))) / of_int (seconds demo_config)\<bar> \<and>
                      \<bar>v - of_int (sum_list (map transactions (contexts_of r))) / of_int (seconds demo_config)\<bar>
                        \<le> \<bar>of_int k' / 2 ^ n' - of_int (sum_list (map transactions (contexts_of r))) / of_int (seconds demo_config)\<bar>))"
    by blast
  have rp: "rep = \<lparr>tps = Finite (6004799503160661 / 9007199254740992), failures_printed = 4\<rparr>"
    using tr by (simp add: r_def)
  from q obtain v where v: "tps rep = Finite v"
    and bound: "\<bar>v - 6 / 9\<bar> \<le> \<bar>6 / 9\<bar> / 2 ^ 53"
    and near: "\<forall>k' n'. \<bar>k'\<bar> \<le> 2 ^ 53 \<longrightarrow>
                      \<bar>v - 6 / 9\<bar> \<le> \<bar>of_int k' * 2 ^ n' - 6 / 9\<bar> \<and>
                      \<bar>v - 6 / 9\<bar> \<le> \<bar>of_int k' / 2 ^ n' - 6 / 9\<bar>"
    unfolding st sd by auto
  have vv: "v = 6004799503160661 / 2 ^ 53" using v by (simp add: rp)
  have k0: "\<bar>6004799503160661\<bar> \<le> (2 ^ 53 :: int)" by simp
  have k1: "\<bar>6004799503160660\<bar> \<le> (2 ^ 53 :: int)" by simp
  have k2: "\<bar>6004799503160662\<bar> \<le> (2 ^ 53 :: int)" by simp
  from near[rule_format, OF k1, of 53]
  have n1: "\<bar>v - 6 / 9\<bar> \<le> \<bar>6004799503160660 / 2 ^ 53 - 6 / 9\<bar>" by simp
  from near[rule_format, OF k2, of 53]
  have n2: "\<bar>v - 6 / 9\<bar> \<le> \<bar>6004799503160662 / 2 ^ 53 - 6 / 9\<bar>" by simp
  have tr': "trace_of r = before @ [Printf \<lparr>tps = Finite v, failures_printed = 4\<rparr>]"
    using tr rp vv by simp
  from tr' vv k0 bound n1 n2
  have last_call: "\<exists>before v. trace_of r = before @ [Printf \<lparr>tps = Finite v, failures_printed = 4\<rparr>] \<and>
         v = 6004799503160661 / 2 ^ 53 \<and>
         \<bar>6004799503160661\<bar> \<le> (2 ^ 53 :: int) \<and>
         \<bar>v - 6 / 9\<bar> \<le> \<bar>6 / 9\<bar> / 2 ^ 53 \<and>
         \<bar>v - 6 / 9\<bar> \<le> \<bar>6004799503160660 / 2 ^ 53 - 6 / 9\<bar> \<and>
         \<bar>v - 6 / 9\<bar> \<le> \<bar>6004799503160662 / 2 ^ 53 - 6 / 9\<bar>"
    by blast
  from demo_scan m e c T[THEN conjunct1] t2 T[THEN conjunct2, THEN conjunct2, THEN conjunct1]
    st sd f last_call
  show ?thesis by blast
qed

section \<open>The deadline\<close>

text \<open>C7. For every run of \<^verbatim>\<open>main\<close> that returns: the clock is read once in
  \<^verbatim>\<open>main\<close>, as its first call and so before any \<^verbatim>\<open>pthread_create\<close>; the deadline is that
  reading with \<^verbatim>\<open>seconds\<close> added to its seconds, the instant \<^verbatim>\<open>seconds\<close> million
  microseconds after the reading; every worker is started with it and every
  context still holds it at the end. No pass of a worker changes the \<^verbatim>\<open>finish_time\<close> of
  its context. The test of lines 92 to 94 is the order of instants: for readings with
  \<^verbatim>\<open>tv_usec\<close> in \<open>[0, 999999]\<close>, as \<^verbatim>\<open>gettimeofday\<close> gives them, it holds exactly when the
  deadline is not later, in microseconds, than the clock. A worker whose setup succeeded
  leaves the loop at the first check after a statement that finds the clock at or past the
  deadline, every earlier check having found it strictly before, whatever the number \<open>n\<close>
  of that check (it then has made \<open>n + 1\<close> passes), and it returns in no other way.\<close>

theorem deadline_fixed_once_and_first_check_exits:
  assumes "scan_args (atoi env) argv defaults = Some cfg" and "main env argv = Some r"
  shows "(\<exists>rest. trace_of r = Main_gettimeofday (now_main env) # rest \<and>
              \<not> list_ex is_main_gettimeofday rest)
     \<and> deadline env cfg =
          \<lparr>tv_sec = tv_sec (now_main env) + seconds cfg, tv_usec = tv_usec (now_main env)\<rparr>
     \<and> (\<forall>i. finish_time (launched_context env cfg i) = deadline env cfg)
     \<and> (\<forall>c\<in>set (contexts_of r). finish_time c = deadline env cfg)
     \<and> (\<forall>wenv c n st. worker_passes wenv c n = Inr st \<longrightarrow> finish_time (ctx st) = finish_time c)
     \<and> (\<forall>wenv c. pq_connect_status wenv = CONNECTION_OK \<and>
                  pq_isolation_status wenv = PGRES_COMMAND_OK \<longrightarrow>
          (\<forall>n. first_reached wenv (finish_time c) 0 n \<longrightarrow>
               thread_main wenv c =
                 (case worker_passes wenv c (Suc n) of
                    Inl e \<Rightarrow> Some (Inl e)
                  | Inr st \<Rightarrow> Some (Inr (ctx st, calls st @ [PQfinish])))) \<and>
          (\<forall>c' wcalls. thread_main wenv c = Some (Inr (c', wcalls)) \<longrightarrow>
               (\<exists>n st. first_reached wenv (finish_time c) 0 n \<and>
                       worker_passes wenv c (Suc n) = Inr st \<and>
                       c' = ctx st \<and> wcalls = calls st @ [PQfinish])))
     \<and> (\<forall>now fin. normalised now \<and> normalised fin \<longrightarrow>
          (deadline_reached now fin \<longleftrightarrow> microseconds fin \<le> microseconds now))
     \<and> (\<forall>c\<in>set (contexts_of r).
          microseconds (finish_time c) = microseconds (now_main env) + 1000000 * seconds cfg \<and>
          (normalised (now_main env) \<longrightarrow> normalised (finish_time c)))
     \<and> (\<forall>wenv c. pq_connect_status wenv = CONNECTION_OK \<and>
                  pq_isolation_status wenv = PGRES_COMMAND_OK \<and>
                  normalised (finish_time c) \<and> (\<forall>k. normalised (clock wenv k)) \<longrightarrow>
          (\<forall>n. microseconds (finish_time c) \<le> microseconds (clock wenv n) \<and>
                (\<forall>j<n. microseconds (clock wenv j) < microseconds (finish_time c)) \<longrightarrow>
               thread_main wenv c =
                 (case worker_passes wenv c (Suc n) of
                    Inl e \<Rightarrow> Some (Inl e)
                  | Inr st \<Rightarrow> Some (Inr (ctx st, calls st @ [PQfinish])))) \<and>
          (\<forall>c' wcalls. thread_main wenv c = Some (Inr (c', wcalls)) \<longrightarrow>
               (\<exists>n st. microseconds (finish_time c) \<le> microseconds (clock wenv n) \<and>
                       (\<forall>j<n. microseconds (clock wenv j) < microseconds (finish_time c)) \<and>
                       worker_passes wenv c (Suc n) = Inr st \<and>
                       c' = ctx st \<and> wcalls = calls st @ [PQfinish])))"
proof -
  have rb: "run_benchmark env cfg = Some r" using assms by (simp add: main_def)
  note A = run_benchmark_any[OF rb]
  have 1: "\<exists>rest. trace_of r = Main_gettimeofday (now_main env) # rest \<and>
              \<not> list_ex is_main_gettimeofday rest"
    using A by blast
  have 2: "deadline env cfg =
          \<lparr>tv_sec = tv_sec (now_main env) + seconds cfg, tv_usec = tv_usec (now_main env)\<rparr>"
    by (simp add: deadline_def)
  have 3: "\<forall>i. finish_time (launched_context env cfg i) = deadline env cfg"
    by (simp add: launched_context_def initial_context_def)
  have 4: "\<forall>c\<in>set (contexts_of r). finish_time c = deadline env cfg"
    using A by blast
  have 5: "\<forall>wenv c n st. worker_passes wenv c n = Inr st \<longrightarrow> finish_time (ctx st) = finish_time c"
    using worker_passes_finish_time by blast
  have 6: "\<forall>wenv c. pq_connect_status wenv = CONNECTION_OK \<and>
                  pq_isolation_status wenv = PGRES_COMMAND_OK \<longrightarrow>
          (\<forall>n. first_reached wenv (finish_time c) 0 n \<longrightarrow>
               thread_main wenv c =
                 (case worker_passes wenv c (Suc n) of
                    Inl e \<Rightarrow> Some (Inl e)
                  | Inr st \<Rightarrow> Some (Inr (ctx st, calls st @ [PQfinish])))) \<and>
          (\<forall>c' wcalls. thread_main wenv c = Some (Inr (c', wcalls)) \<longrightarrow>
               (\<exists>n st. first_reached wenv (finish_time c) 0 n \<and>
                       worker_passes wenv c (Suc n) = Inr st \<and>
                       c' = ctx st \<and> wcalls = calls st @ [PQfinish]))"
  proof (intro allI impI conjI)
    fix wenv :: worker_env and c :: thread_context and n :: nat
    assume "pq_connect_status wenv = CONNECTION_OK \<and> pq_isolation_status wenv = PGRES_COMMAND_OK"
      and "first_reached wenv (finish_time c) 0 n"
    then show "thread_main wenv c =
                 (case worker_passes wenv c (Suc n) of
                    Inl e \<Rightarrow> Some (Inl e)
                  | Inr st \<Rightarrow> Some (Inr (ctx st, calls st @ [PQfinish])))"
      by (intro thread_main_run) simp_all
  next
    fix wenv :: worker_env and c c' :: thread_context and wcalls :: "call list"
    assume "pq_connect_status wenv = CONNECTION_OK \<and> pq_isolation_status wenv = PGRES_COMMAND_OK"
      and "thread_main wenv c = Some (Inr (c', wcalls))"
    then show "\<exists>n st. first_reached wenv (finish_time c) 0 n \<and>
                       worker_passes wenv c (Suc n) = Inr st \<and>
                       c' = ctx st \<and> wcalls = calls st @ [PQfinish]"
      by (intro thread_main_Inr) simp_all
  qed
  have 7: "\<forall>now fin. normalised now \<and> normalised fin \<longrightarrow>
          (deadline_reached now fin \<longleftrightarrow> microseconds fin \<le> microseconds now)"
    using deadline_reached_microseconds by blast
  have 8: "\<forall>c\<in>set (contexts_of r).
          microseconds (finish_time c) = microseconds (now_main env) + 1000000 * seconds cfg \<and>
          (normalised (now_main env) \<longrightarrow> normalised (finish_time c))"
  proof
    fix c assume "c \<in> set (contexts_of r)"
    with 4 have "finish_time c = deadline env cfg" by blast
    then show "microseconds (finish_time c) = microseconds (now_main env) + 1000000 * seconds cfg \<and>
          (normalised (now_main env) \<longrightarrow> normalised (finish_time c))"
      by (simp add: deadline_def microseconds_def normalised_def)
  qed
  have 9: "\<forall>wenv c. pq_connect_status wenv = CONNECTION_OK \<and>
                  pq_isolation_status wenv = PGRES_COMMAND_OK \<and>
                  normalised (finish_time c) \<and> (\<forall>k. normalised (clock wenv k)) \<longrightarrow>
          (\<forall>n. microseconds (finish_time c) \<le> microseconds (clock wenv n) \<and>
                (\<forall>j<n. microseconds (clock wenv j) < microseconds (finish_time c)) \<longrightarrow>
               thread_main wenv c =
                 (case worker_passes wenv c (Suc n) of
                    Inl e \<Rightarrow> Some (Inl e)
                  | Inr st \<Rightarrow> Some (Inr (ctx st, calls st @ [PQfinish])))) \<and>
          (\<forall>c' wcalls. thread_main wenv c = Some (Inr (c', wcalls)) \<longrightarrow>
               (\<exists>n st. microseconds (finish_time c) \<le> microseconds (clock wenv n) \<and>
                       (\<forall>j<n. microseconds (clock wenv j) < microseconds (finish_time c)) \<and>
                       worker_passes wenv c (Suc n) = Inr st \<and>
                       c' = ctx st \<and> wcalls = calls st @ [PQfinish]))"
  proof (intro allI impI)
    fix wenv :: worker_env and c :: thread_context
    assume h: "pq_connect_status wenv = CONNECTION_OK \<and>
                  pq_isolation_status wenv = PGRES_COMMAND_OK \<and>
                  normalised (finish_time c) \<and> (\<forall>k. normalised (clock wenv k))"
    then have ok: "pq_connect_status wenv = CONNECTION_OK \<and>
                  pq_isolation_status wenv = PGRES_COMMAND_OK" by blast
    from h have fr: "\<And>n. first_reached wenv (finish_time c) 0 n \<longleftrightarrow>
           microseconds (finish_time c) \<le> microseconds (clock wenv n) \<and>
           (\<forall>j<n. microseconds (clock wenv j) < microseconds (finish_time c))"
      by (intro first_reached_microseconds) blast+
    from 6[rule_format, OF ok, of c]
    show "(\<forall>n. microseconds (finish_time c) \<le> microseconds (clock wenv n) \<and>
                (\<forall>j<n. microseconds (clock wenv j) < microseconds (finish_time c)) \<longrightarrow>
               thread_main wenv c =
                 (case worker_passes wenv c (Suc n) of
                    Inl e \<Rightarrow> Some (Inl e)
                  | Inr st \<Rightarrow> Some (Inr (ctx st, calls st @ [PQfinish])))) \<and>
          (\<forall>c' wcalls. thread_main wenv c = Some (Inr (c', wcalls)) \<longrightarrow>
               (\<exists>n st. microseconds (finish_time c) \<le> microseconds (clock wenv n) \<and>
                       (\<forall>j<n. microseconds (clock wenv j) < microseconds (finish_time c)) \<and>
                       worker_passes wenv c (Suc n) = Inr st \<and>
                       c' = ctx st \<and> wcalls = calls st @ [PQfinish]))"
      unfolding fr by (simp only: conj_assoc)
  qed
  show ?thesis
    apply (intro conjI)
            apply (rule 1)
           apply (rule 2)
          apply (rule 3)
         apply (rule 4)
        apply (rule 5)
       apply (rule 6)
      apply (rule 7)
     apply (rule 8)
    apply (rule 9)
    done
qed

theorem deadline_fixed_once_and_first_check_exits_witness:
  "scan_args (atoi demo_env) demo_argv defaults = Some demo_config \<and>
   (\<exists>r. main demo_env demo_argv = Some r \<and>
      (\<exists>rest. trace_of r = Main_gettimeofday \<lparr>tv_sec = 1000, tv_usec = 500\<rparr> # rest \<and>
              \<not> list_ex is_main_gettimeofday rest) \<and>
      list_all (\<lambda>c. finish_time c = \<lparr>tv_sec = 1009, tv_usec = 500\<rparr>) (contexts_of r) \<and>
      list_all (\<lambda>c. microseconds (finish_time c) = 1000000500 + 1000000 * 9 \<and>
                     normalised (finish_time c)) (contexts_of r)) \<and>
   deadline demo_env demo_config = \<lparr>tv_sec = 1009, tv_usec = 500\<rparr> \<and>
   finish_time (launched_context demo_env demo_config 0) = \<lparr>tv_sec = 1009, tv_usec = 500\<rparr> \<and>
   microseconds (now_main demo_env) = 1000000500 \<and> seconds demo_config = 9 \<and>
   normalised (now_main demo_env) \<and>
   pq_connect_status (demo_worker 0) = CONNECTION_OK \<and>
   pq_isolation_status (demo_worker 0) = PGRES_COMMAND_OK \<and>
   normalised (finish_time (demo_context 0)) \<and>
   (\<forall>k. normalised (clock (demo_worker 0) k)) \<and>
   microseconds (finish_time (demo_context 0)) = 1009000500 \<and>
   microseconds (clock (demo_worker 0) 0) = 1000000500 \<and>
   microseconds (clock (demo_worker 0) 1) = 1005000500 \<and>
   microseconds (clock (demo_worker 0) 2) = 1010000500 \<and>
   \<not> deadline_reached (clock (demo_worker 0) 0) (finish_time (demo_context 0)) \<and>
   \<not> deadline_reached (clock (demo_worker 0) 1) (finish_time (demo_context 0)) \<and>
   deadline_reached (clock (demo_worker 0) 2) (finish_time (demo_context 0)) \<and>
   first_reached (demo_worker 0) (finish_time (demo_context 0)) 0 2 \<and>
   (\<exists>st. worker_passes (demo_worker 0) (demo_context 0) 3 = Inr st \<and>
      finish_time (ctx st) = finish_time (demo_context 0) \<and>
      thread_main (demo_worker 0) (demo_context 0) = Some (Inr (ctx st, calls st @ [PQfinish])))"
proof -
  obtain r where m: "main demo_env demo_argv = Some r" using demo_main by blast
  note T = deadline_fixed_once_and_first_check_exits[OF demo_scan m]
  note T5 = T[THEN conjunct2, THEN conjunct2, THEN conjunct2, THEN conjunct2]
  note T7 = T5[THEN conjunct2, THEN conjunct2]
  have d: "deadline demo_env demo_config = \<lparr>tv_sec = 1009, tv_usec = 500\<rparr>"
    using T[THEN conjunct2, THEN conjunct1]
    by (simp add: demo_env_fields demo_config_def)
  have tr: "\<exists>rest. trace_of r = Main_gettimeofday \<lparr>tv_sec = 1000, tv_usec = 500\<rparr> # rest \<and>
              \<not> list_ex is_main_gettimeofday rest"
    using T[THEN conjunct1] by (simp add: demo_env_fields)
  have l0: "finish_time (launched_context demo_env demo_config 0) = \<lparr>tv_sec = 1009, tv_usec = 500\<rparr>"
    using T[THEN conjunct2, THEN conjunct2, THEN conjunct1] d by simp
  have cs: "list_all (\<lambda>c. finish_time c = \<lparr>tv_sec = 1009, tv_usec = 500\<rparr>) (contexts_of r)"
    using T[THEN conjunct2, THEN conjunct2, THEN conjunct2, THEN conjunct1] d
    by (simp add: list_all_iff)
  have mn: "microseconds (now_main demo_env) = 1000000500"
    by (simp add: microseconds_def demo_env_fields)
  have sd: "seconds demo_config = 9" by (simp add: demo_config_def)
  have nn: "normalised (now_main demo_env)" by (simp add: normalised_def demo_env_fields)
  have cm: "list_all (\<lambda>c. microseconds (finish_time c) = 1000000500 + 1000000 * 9 \<and>
                     normalised (finish_time c)) (contexts_of r)"
    using T7[THEN conjunct2, THEN conjunct1] nn unfolding mn sd
    by (simp add: list_all_iff)
  have ok: "pq_connect_status (demo_worker 0) = CONNECTION_OK"
           "pq_isolation_status (demo_worker 0) = PGRES_COMMAND_OK"
    by (simp_all add: demo_worker_status)
  have nf: "normalised (finish_time (demo_context 0))"
    by (simp add: normalised_def demo_context_fields)
  have nc: "\<forall>k. normalised (clock (demo_worker 0) k)"
    by (simp add: normalised_def demo_worker_def)
  have mf: "microseconds (finish_time (demo_context 0)) = 1009000500"
    by (simp add: microseconds_def demo_context_fields)
  have m0: "microseconds (clock (demo_worker 0) 0) = 1000000500"
    and m1: "microseconds (clock (demo_worker 0) 1) = 1005000500"
    and m2: "microseconds (clock (demo_worker 0) 2) = 1010000500"
    by (simp_all add: microseconds_def demo_worker_def)
  note order = T7[THEN conjunct1, rule_format, OF conjI[OF nc[rule_format] nf]]
  have r0: "\<not> deadline_reached (clock (demo_worker 0) 0) (finish_time (demo_context 0))"
    using order[of 0] mf m0 by simp
  have r1: "\<not> deadline_reached (clock (demo_worker 0) 1) (finish_time (demo_context 0))"
    using order[of 1] mf m1 by simp
  have r2: "deadline_reached (clock (demo_worker 0) 2) (finish_time (demo_context 0))"
    using order[of 2] mf m2 by simp
  have fr: "first_reached (demo_worker 0) (finish_time (demo_context 0)) 0 2"
    by (simp add: demo_context_fields demo_first_reached)
  obtain st where wp: "worker_passes (demo_worker 0) (demo_context 0) 3 = Inr st"
    using demo_passes_0 by blast
  have ft: "finish_time (ctx st) = finish_time (demo_context 0)"
    using T5[THEN conjunct1] wp by blast
  have earlier: "\<forall>j<2. microseconds (clock (demo_worker 0) j) < microseconds (finish_time (demo_context 0))"
  proof (intro allI impI)
    fix j :: nat assume "j < 2"
    then have "j = 0 \<or> j = 1" by auto
    then show "microseconds (clock (demo_worker 0) j) < microseconds (finish_time (demo_context 0))"
      using m0 m1 mf by auto
  qed
  have at_2: "microseconds (finish_time (demo_context 0)) \<le> microseconds (clock (demo_worker 0) 2)"
    by (simp add: mf m2)
  have hyp: "pq_connect_status (demo_worker 0) = CONNECTION_OK \<and>
             pq_isolation_status (demo_worker 0) = PGRES_COMMAND_OK \<and>
             normalised (finish_time (demo_context 0)) \<and>
             (\<forall>k. normalised (clock (demo_worker 0) k))"
    using ok nf nc by blast
  from T7[THEN conjunct2, THEN conjunct2, rule_format, OF hyp, THEN conjunct1, rule_format,
      OF conjI[OF at_2 earlier]]
  have tm: "thread_main (demo_worker 0) (demo_context 0) = Some (Inr (ctx st, calls st @ [PQfinish]))"
    using wp by (simp add: numeral_3_eq_3)
  from T5[THEN conjunct2, THEN conjunct1, rule_format, OF conjI[OF ok], THEN conjunct1,
      rule_format, OF fr]
  have tm': "thread_main (demo_worker 0) (demo_context 0) = Some (Inr (ctx st, calls st @ [PQfinish]))"
    using wp by (simp add: numeral_3_eq_3)
  have run: "\<exists>r. main demo_env demo_argv = Some r \<and>
      (\<exists>rest. trace_of r = Main_gettimeofday \<lparr>tv_sec = 1000, tv_usec = 500\<rparr> # rest \<and>
              \<not> list_ex is_main_gettimeofday rest) \<and>
      list_all (\<lambda>c. finish_time c = \<lparr>tv_sec = 1009, tv_usec = 500\<rparr>) (contexts_of r) \<and>
      list_all (\<lambda>c. microseconds (finish_time c) = 1000000500 + 1000000 * 9 \<and>
                     normalised (finish_time c)) (contexts_of r)"
    using m tr cs cm by blast
  have worker: "\<exists>st. worker_passes (demo_worker 0) (demo_context 0) 3 = Inr st \<and>
      finish_time (ctx st) = finish_time (demo_context 0) \<and>
      thread_main (demo_worker 0) (demo_context 0) = Some (Inr (ctx st, calls st @ [PQfinish]))"
    using wp ft tm tm' by blast
  show ?thesis
    apply (intro conjI)
                      apply (rule demo_scan)
                      apply (rule run)
                      apply (rule d)
                      apply (rule l0)
                      apply (rule mn)
                      apply (rule sd)
                     apply (rule nn)
                    apply (rule ok(1))
                   apply (rule ok(2))
                  apply (rule nf)
                 apply (rule nc)
                apply (rule mf)
               apply (rule m0)
              apply (rule m1)
             apply (rule m2)
            apply (rule r0)
           apply (rule r1)
          apply (rule r2)
         apply (rule fr)
        apply (rule worker)
    done
qed

section \<open>A worker whose setup fails\<close>

text \<open>C8. Let worker \<open>j\<close> fail to connect or to set the isolation level, in a run whose
  schema setup, thread creations and joins succeed and whose other workers return
  (\<open>fc i\<close> is the context worker \<open>i\<close> returns on its own surroundings). Then worker \<open>j\<close>
  returns at once, with no statement of the loop sent, no look at the clock, and both
  counters 0; \<^verbatim>\<open>main\<close> returns \<^verbatim>\<open>EXIT_SUCCESS\<close>; the other workers' contexts are the
  \<open>fc i\<close>; and the report, the last call, is computed from the counters of the workers
  other than \<open>j\<close>.\<close>

theorem worker_setup_failure_is_local:
  assumes "j < nat (threads cfg)"
    and "pq_connect_status (worker_envs env j) \<noteq> CONNECTION_OK \<or>
         pq_isolation_status (worker_envs env j) \<noteq> PGRES_COMMAND_OK"
    and "scan_args (atoi env) argv defaults = Some cfg"
    and "setup_ok env"
    and "INT_MIN \<le> queries_per_update_arg cfg + 1" "queries_per_update_arg cfg + 1 \<le> INT_MAX"
    and "\<forall>i<nat (threads cfg). pthread_create_result env i = 0"
    and "\<forall>i<nat (threads cfg). pthread_join_result env i = 0"
    and "\<forall>i<nat (threads cfg). i \<noteq> j \<longrightarrow> (\<exists>wcalls.
           thread_main (worker_envs env i) (launched_context env cfg i) =
             Some (Inr (fc i, wcalls)))"
    and "sum_list (map (\<lambda>i. transactions (fc i)) (filter (\<lambda>i. i \<noteq> j) [0..<nat (threads cfg)]))
           \<le> INT_MAX"
  shows "(\<exists>wcalls. thread_main (worker_envs env j) (launched_context env cfg j) =
                     Some (Inr (launched_context env cfg j, wcalls)) \<and>
                   loop_statements wcalls = [] \<and> \<not> list_ex is_gettimeofday wcalls)
     \<and> transactions (launched_context env cfg j) = 0
     \<and> failures (launched_context env cfg j) = 0
     \<and> (\<exists>r. main env argv = Some r \<and> ending_of r = Inr EXIT_SUCCESS \<and>
            contexts_of r =
              map (\<lambda>i. if i = j then launched_context env cfg j else fc i)
                  [0..<nat (threads cfg)] \<and>
            (\<exists>before. trace_of r = before @
               [Printf \<lparr>tps = double_div
                           (sum_list (map (\<lambda>i. transactions (fc i))
                              (filter (\<lambda>i. i \<noteq> j) [0..<nat (threads cfg)])))
                           (seconds cfg),
                        failures_printed =
                           sum_list (map (\<lambda>i. failures (fc i))
                              (filter (\<lambda>i. i \<noteq> j) [0..<nat (threads cfg)]))\<rparr>]))"
proof -
  let ?cj = "launched_context env cfg j"
  let ?n = "nat (threads cfg)"
  let ?finals = "map (\<lambda>i. if i = j then ?cj else fc i) [0..<?n]"
  have z: "transactions ?cj = 0" "failures ?cj = 0"
    by (simp_all add: launched_context_def initial_context_def)
  have tj: "\<exists>wcalls. thread_main (worker_envs env j) ?cj = Some (Inr (?cj, wcalls)) \<and>
                   loop_statements wcalls = [] \<and> \<not> list_ex is_gettimeofday wcalls"
  proof (cases "pq_connect_status (worker_envs env j) = CONNECTION_OK")
    case False
    then show ?thesis by (simp add: thread_main_def is_gettimeofday_def)
  next
    case True
    with assms(2) have "pq_isolation_status (worker_envs env j) \<noteq> PGRES_COMMAND_OK" by blast
    with True show ?thesis
      by (simp add: thread_main_def is_gettimeofday_def isolation_statement_def)
  qed
  have len: "length ?finals = ?n" by simp
  have tm: "\<forall>i<?n. \<exists>wcalls.
           thread_main (worker_envs env i) (launched_context env cfg i) =
             Some (Inr (?finals ! i, wcalls))"
  proof (intro allI impI)
    fix i assume i: "i < ?n"
    show "\<exists>wcalls. thread_main (worker_envs env i) (launched_context env cfg i) =
             Some (Inr (?finals ! i, wcalls))"
    proof (cases "i = j")
      case True
      with tj i show ?thesis by auto
    next
      case False
      with assms(9) i show ?thesis by auto
    qed
  qed
  have st: "sum_list (map transactions ?finals) =
            sum_list (map (\<lambda>i. transactions (fc i)) (filter (\<lambda>i. i \<noteq> j) [0..<?n]))"
    by (rule sum_list_skip_index) (rule z(1))
  have sf: "sum_list (map failures ?finals) =
            sum_list (map (\<lambda>i. failures (fc i)) (filter (\<lambda>i. i \<noteq> j) [0..<?n]))"
    by (rule sum_list_skip_index) (rule z(2))
  have s: "sum_list (map transactions ?finals) \<le> INT_MAX" unfolding st by (rule assms(10))
  note R = run_benchmark_completes[OF assms(4,5,6,7,8) len tm s]
  have m: "main env argv = run_benchmark env cfg" by (rule main_scanned[OF assms(3)])
  have "\<exists>r. main env argv = Some r \<and> ending_of r = Inr EXIT_SUCCESS \<and>
            contexts_of r = ?finals \<and>
            (\<exists>before. trace_of r = before @
               [Printf \<lparr>tps = double_div
                           (sum_list (map (\<lambda>i. transactions (fc i))
                              (filter (\<lambda>i. i \<noteq> j) [0..<?n])))
                           (seconds cfg),
                        failures_printed =
                           sum_list (map (\<lambda>i. failures (fc i))
                              (filter (\<lambda>i. i \<noteq> j) [0..<?n]))\<rparr>])"
    unfolding m R printed_report_def st sf
    by (simp del: map_map)
  with tj z show ?thesis by blast
qed

theorem worker_setup_failure_is_local_witness:
  "1 < nat (threads demo_config) \<and>
   pq_connect_status (worker_envs demo_env 1) = CONNECTION_BAD \<and>
   scan_args (atoi demo_env) demo_argv defaults = Some demo_config \<and>
   setup_ok demo_env \<and>
   INT_MIN \<le> queries_per_update_arg demo_config + 1 \<and>
   queries_per_update_arg demo_config + 1 \<le> INT_MAX \<and>
   list_all (\<lambda>i. pthread_create_result demo_env i = 0) [0..<nat (threads demo_config)] \<and>
   list_all (\<lambda>i. pthread_join_result demo_env i = 0) [0..<nat (threads demo_config)] \<and>
   (\<exists>wcalls. thread_main (worker_envs demo_env 0) (launched_context demo_env demo_config 0) =
               Some (Inr (demo_finals ! 0, wcalls))) \<and>
   (\<exists>wcalls. thread_main (worker_envs demo_env 2) (launched_context demo_env demo_config 2) =
               Some (Inr (demo_finals ! 2, wcalls))) \<and>
   sum_list (map (\<lambda>i. transactions (demo_finals ! i))
      (filter (\<lambda>i. i \<noteq> 1) [0..<nat (threads demo_config)])) = 6 \<and>
   sum_list (map (\<lambda>i. failures (demo_finals ! i))
      (filter (\<lambda>i. i \<noteq> 1) [0..<nat (threads demo_config)])) = 4 \<and>
   (\<exists>wcalls. thread_main (worker_envs demo_env 1) (launched_context demo_env demo_config 1) =
               Some (Inr (launched_context demo_env demo_config 1, wcalls)) \<and>
             loop_statements wcalls = []) \<and>
   transactions (launched_context demo_env demo_config 1) = 0 \<and>
   failures (launched_context demo_env demo_config 1) = 0 \<and>
   (\<exists>r. main demo_env demo_argv = Some r \<and> ending_of r = Inr EXIT_SUCCESS \<and>
        (\<exists>before. trace_of r = before @
           [Printf \<lparr>tps = double_div 6 (seconds demo_config), failures_printed = 4\<rparr>]))"
proof -
  have n: "nat (threads demo_config) = 3" by (simp add: demo_config_def)
  have u: "[0..<3] = [0, 1, 2]" by (simp add: upt_rec)
  have h1: "1 < nat (threads demo_config)" by (simp add: n)
  have cb: "pq_connect_status (worker_envs demo_env 1) = CONNECTION_BAD"
    by (simp add: demo_env_fields demo_worker_def)
  then have h2: "pq_connect_status (worker_envs demo_env 1) \<noteq> CONNECTION_OK \<or>
         pq_isolation_status (worker_envs demo_env 1) \<noteq> PGRES_COMMAND_OK" by simp
  have ok: "setup_ok demo_env" by (simp add: setup_ok_def demo_env_def)
  have q: "INT_MIN \<le> queries_per_update_arg demo_config + 1"
    "queries_per_update_arg demo_config + 1 \<le> INT_MAX"
    by (simp_all add: demo_config_def defaults_def INT_MIN_def INT_MAX_def)
  have cr: "\<forall>i<nat (threads demo_config). pthread_create_result demo_env i = 0"
    and jr: "\<forall>i<nat (threads demo_config). pthread_join_result demo_env i = 0"
    by (simp_all add: demo_env_fields)
  have t0: "\<exists>wcalls. thread_main (worker_envs demo_env 0) (launched_context demo_env demo_config 0) =
               Some (Inr (demo_finals ! 0, wcalls))"
    using demo_thread_main_0 by (simp add: demo_env_fields demo_context_def)
  have t2: "\<exists>wcalls. thread_main (worker_envs demo_env 2) (launched_context demo_env demo_config 2) =
               Some (Inr (demo_finals ! 2, wcalls))"
    using demo_thread_main_2 by (simp add: demo_env_fields demo_context_def)
  have others: "\<forall>i<nat (threads demo_config). i \<noteq> 1 \<longrightarrow> (\<exists>wcalls.
           thread_main (worker_envs demo_env i) (launched_context demo_env demo_config i) =
             Some (Inr (demo_finals ! i, wcalls)))"
  proof (intro allI impI)
    fix i assume "i < nat (threads demo_config)" "i \<noteq> 1"
    then have "i = 0 \<or> i = 2" using less_3_cases[of i] by (simp add: n)
    with t0 t2 show "\<exists>wcalls.
           thread_main (worker_envs demo_env i) (launched_context demo_env demo_config i) =
             Some (Inr (demo_finals ! i, wcalls))" by blast
  qed
  have st: "sum_list (map (\<lambda>i. transactions (demo_finals ! i))
      (filter (\<lambda>i. i \<noteq> 1) [0..<nat (threads demo_config)])) = 6"
    by (simp add: n u demo_finals_def demo_context_fields)
  have sf: "sum_list (map (\<lambda>i. failures (demo_finals ! i))
      (filter (\<lambda>i. i \<noteq> 1) [0..<nat (threads demo_config)])) = 4"
    by (simp add: n u demo_finals_def demo_context_fields)
  have s: "sum_list (map (\<lambda>i. transactions (demo_finals ! i))
      (filter (\<lambda>i. i \<noteq> 1) [0..<nat (threads demo_config)])) \<le> INT_MAX"
    unfolding st by (simp add: INT_MAX_def)
  note T = worker_setup_failure_is_local[OF h1 h2 demo_scan ok q cr jr others s]
  from T[THEN conjunct1] have w1: "\<exists>wcalls.
      thread_main (worker_envs demo_env 1) (launched_context demo_env demo_config 1) =
               Some (Inr (launched_context demo_env demo_config 1, wcalls)) \<and>
             loop_statements wcalls = []" by blast
  from T[THEN conjunct2, THEN conjunct2, THEN conjunct2] obtain r where
    r: "main demo_env demo_argv = Some r" "ending_of r = Inr EXIT_SUCCESS"
       "\<exists>before. trace_of r = before @
           [Printf \<lparr>tps = double_div 6 (seconds demo_config), failures_printed = 4\<rparr>]"
    unfolding st sf by blast
  have la: "list_all (\<lambda>i. pthread_create_result demo_env i = 0) [0..<nat (threads demo_config)]"
    "list_all (\<lambda>i. pthread_join_result demo_env i = 0) [0..<nat (threads demo_config)]"
    by (simp_all add: demo_env_fields list_all_iff)
  from h1 cb demo_scan ok q la t0 t2 st sf w1 T[THEN conjunct2, THEN conjunct1]
    T[THEN conjunct2, THEN conjunct2, THEN conjunct1] r
  show ?thesis by blast
qed

section \<open>A table without rows\<close>

text \<open>C9. The claim: a row count of 0 is a configuration error and never reaches the
  choice of the row. The argument scan takes \<^verbatim>\<open>--rows 0\<close> as it takes any number, nothing
  after it looks at \<^verbatim>\<open>rows\<close>, and the first pass of worker 0, an update, computes
  \<^verbatim>\<open>rand_r(&seed) % 0\<close>.\<close>

theorem zero_rows_accepted_then_division_by_zero:
  "scan_args (atoi demo_env) [''--rows'', ''0''] defaults = Some zero_rows_config
   \<and> rows (launched_context demo_env zero_rows_config 0) = 0
   \<and> thread_main (demo_worker 0) (launched_context demo_env zero_rows_config 0) =
       Some (Inl Division_By_Zero)
   \<and> main demo_env [''--rows'', ''0''] =
       Some \<lparr>ending_of = Inl Division_By_Zero, contexts_of = [],
             trace_of = setup_calls demo_env zero_rows_config @
               [Pthread_create 0 0, Pthread_create 1 0, Pthread_join 0 0]\<rparr>"
proof -
  have sc: "scan_args (atoi demo_env) [''--rows'', ''0''] defaults = Some zero_rows_config"
    by (simp add: demo_env_def zero_rows_config_def atoi_decimal_def digit_of_def)
  have r0: "rows (launched_context demo_env zero_rows_config 0) = 0"
    by (simp add: launched_context_def initial_context_def zero_rows_config_def)
  have b: "loop_body (demo_worker 0) 0
             (loop_entry (demo_worker 0) (launched_context demo_env zero_rows_config 0)) =
           Inl Division_By_Zero"
    by (simp add: loop_body_def loop_entry_def launched_context_def initial_context_def
        zero_rows_config_def defaults_def c_add_def c_rem_def INT_MIN_def INT_MAX_def
        demo_worker_def demo_rand_r_def Let_def)
  have wl: "worker_loop (demo_worker 0) 0
             (loop_entry (demo_worker 0) (launched_context demo_env zero_rows_config 0)) =
           Some (Inl Division_By_Zero)"
    by (subst worker_loop.simps) (simp add: b)
  have tm: "thread_main (demo_worker 0) (launched_context demo_env zero_rows_config 0) =
       Some (Inl Division_By_Zero)"
    using demo_worker_status(1,2) by (simp add: thread_main_def wl)
  have ok: "setup_ok demo_env" by (simp add: setup_ok_def demo_env_def)
  have n: "[0..<nat (threads zero_rows_config)] = [0, 1]"
    by (simp add: zero_rows_config_def defaults_def upt_rec)
  have l: "launch_workers demo_env zero_rows_config (deadline demo_env zero_rows_config) [0, 1]
       \<lparr>thread_contexts = [], trace = setup_calls demo_env zero_rows_config\<rparr> =
     (None,
      \<lparr>thread_contexts =
         [launched_context demo_env zero_rows_config 0, launched_context demo_env zero_rows_config 1],
       trace = setup_calls demo_env zero_rows_config @ [Pthread_create 0 0, Pthread_create 1 0]\<rparr>)"
    by (simp add: demo_env_fields zero_rows_config_def defaults_def c_add_def INT_MIN_def
        INT_MAX_def launched_context_def Let_def)
  have h0: "thread_handle (launched_context demo_env zero_rows_config 0) = Some 0"
    by (simp add: launched_context_def)
  have j: "join_workers demo_env 0
       [launched_context demo_env zero_rows_config 0, launched_context demo_env zero_rows_config 1]
       \<lparr>thread_contexts = [],
         trace = setup_calls demo_env zero_rows_config @ [Pthread_create 0 0, Pthread_create 1 0]\<rparr> =
     Some (Some (Inl Division_By_Zero),
       \<lparr>thread_contexts = [],
         trace = setup_calls demo_env zero_rows_config @
                   [Pthread_create 0 0, Pthread_create 1 0, Pthread_join 0 0]\<rparr>)"
    using tm by (simp add: h0 demo_env_fields Let_def)
  have "run_benchmark demo_env zero_rows_config =
       Some \<lparr>ending_of = Inl Division_By_Zero, contexts_of = [],
             trace_of = setup_calls demo_env zero_rows_config @
               [Pthread_create 0 0, Pthread_create 1 0, Pthread_join 0 0]\<rparr>"
    unfolding run_benchmark_after_setup[OF ok] n l
    by (simp only: j prod.case option.case finish_def driver_state.simps append_Nil2)
  with sc r0 tm main_scanned[OF sc] show ?thesis by simp
qed

section \<open>The first pass comes before the first look at the clock\<close>

text \<open>C10. For a worker whose connection and isolation setting both succeeded, started
  with \<^verbatim>\<open>transactions\<close> at 0: whenever \<^verbatim>\<open>thread_main\<close> returns, \<^verbatim>\<open>transactions\<close> is at
  least 1, and among its calls the first statement of the loop comes before the first
  \<^verbatim>\<open>gettimeofday\<close>. And when the deadline has already passed at that first reading of the
  clock (as with \<^verbatim>\<open>--seconds 0\<close>), a worker with a positive cycle and row count does
  return, with \<^verbatim>\<open>transactions\<close> equal to 1.\<close>

theorem first_pass_precedes_first_check:
  assumes "pq_connect_status env = CONNECTION_OK" "pq_isolation_status env = PGRES_COMMAND_OK"
    and "transactions c = 0"
  shows "(\<forall>c' wcalls. thread_main env c = Some (Inr (c', wcalls)) \<longrightarrow>
            1 \<le> transactions c' \<and>
            \<not> list_ex is_gettimeofday (calls (loop_entry env c)) \<and>
            (\<exists>s res rest.
               wcalls = calls (loop_entry env c) @
                          PQexec s res # PQclear # Gettimeofday (clock env 0) # rest \<and>
               (s = Select_All \<or> is_update s)))
     \<and> (deadline_reached (clock env 0) (finish_time c) \<and> 1 \<le> cycle c \<and> 1 \<le> rows c \<and>
        0 \<le> thread_number c \<and> thread_number c < INT_MAX \<and> failures c = 0 \<longrightarrow>
          (\<exists>c' wcalls. thread_main env c = Some (Inr (c', wcalls)) \<and> transactions c' = 1))"
proof (intro conjI allI impI)
  fix c' wcalls assume tm: "thread_main env c = Some (Inr (c', wcalls))"
  from thread_main_Inr[OF assms(1,2) tm] obtain n st where
    wp: "worker_passes env c (Suc n) = Inr st" and c': "c' = ctx st"
    and wc: "wcalls = calls st @ [PQfinish]" by blast
  have it: "iterate_body env 0 (Suc n) (loop_entry env c) = Inr st"
    using wp by (simp add: worker_passes_def)
  from iterate_body_Inr[OF it] have "transactions (ctx st) = transactions c + int (Suc n)"
    by simp
  with assms(3) c' show "1 \<le> transactions c'" by simp
  show "\<not> list_ex is_gettimeofday (calls (loop_entry env c))"
    by (simp add: loop_entry_def is_gettimeofday_def)
  from first_pass_calls[OF it] obtain s res rest where
    "calls st = calls (loop_entry env c) @ PQexec s res # PQclear # Gettimeofday (clock env 0) # rest"
    "s = Select_All \<or> is_update s" by blast
  with wc show "\<exists>s res rest.
               wcalls = calls (loop_entry env c) @
                          PQexec s res # PQclear # Gettimeofday (clock env 0) # rest \<and>
               (s = Select_All \<or> is_update s)"
    by (intro exI[of _ s] exI[of _ res] exI[of _ "rest @ [PQfinish]"]) simp
next
  assume a: "deadline_reached (clock env 0) (finish_time c) \<and> 1 \<le> cycle c \<and> 1 \<le> rows c \<and>
        0 \<le> thread_number c \<and> thread_number c < INT_MAX \<and> failures c = 0"
  then have fr: "first_reached env (finish_time c) 0 0" by (simp add: first_reached_def)
  have "\<exists>st. iterate_body env 0 (Suc 0) (loop_entry env c) = Inr st"
    using a assms(3) by (intro iterate_body_no_fault) (simp_all add: INT_MIN_def INT_MAX_def)
  then obtain st where it: "iterate_body env 0 (Suc 0) (loop_entry env c) = Inr st" by blast
  from iterate_body_Inr[OF it] assms(3) have "transactions (ctx st) = 1" by simp
  moreover have "thread_main env c = Some (Inr (ctx st, calls st @ [PQfinish]))"
    using thread_main_run[OF assms(1,2) fr] it by (simp add: worker_passes_def)
  ultimately show "\<exists>c' wcalls. thread_main env c = Some (Inr (c', wcalls)) \<and> transactions c' = 1"
    by blast
qed

theorem first_pass_precedes_first_check_witness:
  "pq_connect_status (demo_worker 0) = CONNECTION_OK \<and>
   pq_isolation_status (demo_worker 0) = PGRES_COMMAND_OK \<and>
   transactions zero_seconds_context = 0 \<and>
   deadline_reached (clock (demo_worker 0) 0) (finish_time zero_seconds_context) \<and>
   1 \<le> cycle zero_seconds_context \<and> 1 \<le> rows zero_seconds_context \<and>
   0 \<le> thread_number zero_seconds_context \<and> thread_number zero_seconds_context < INT_MAX \<and>
   failures zero_seconds_context = 0 \<and>
   (\<exists>c' wcalls. thread_main (demo_worker 0) zero_seconds_context = Some (Inr (c', wcalls)) \<and>
      transactions c' = 1 \<and> 1 \<le> transactions c')"
proof -
  have h: "pq_connect_status (demo_worker 0) = CONNECTION_OK"
    "pq_isolation_status (demo_worker 0) = PGRES_COMMAND_OK"
    "transactions zero_seconds_context = 0"
    by (simp_all add: demo_worker_def zero_seconds_context_def launched_context_def
        initial_context_def)
  have p: "deadline_reached (clock (demo_worker 0) 0) (finish_time zero_seconds_context) \<and>
     1 \<le> cycle zero_seconds_context \<and> 1 \<le> rows zero_seconds_context \<and>
     0 \<le> thread_number zero_seconds_context \<and> thread_number zero_seconds_context < INT_MAX \<and>
     failures zero_seconds_context = 0"
    by (simp add: demo_worker_def zero_seconds_context_def launched_context_def
        initial_context_def deadline_reached_def deadline_def demo_env_def demo_config_def
        defaults_def INT_MAX_def)
  note T = first_pass_precedes_first_check[OF h]
  from T[THEN conjunct2, rule_format, OF p] obtain c' wcalls where
    r: "thread_main (demo_worker 0) zero_seconds_context = Some (Inr (c', wcalls))"
       "transactions c' = 1" by blast
  from T[THEN conjunct1, rule_format, OF r(1)] have "1 \<le> transactions c'" by blast
  with h p r show ?thesis by blast
qed

end
